theory Spec2Isabelle
  imports Complex_Main "HOL-Library.Log_Nat"
begin

section \<open>The particle service: data model\<close>

text \<open>
  The embedded program is the class \<open>ParticleService\<close> of
  \<open>src/services/particles.service.ts\<close>. Clock readings (\<open>Date.now()\<close>,
  \<open>performance.now()\<close>) and the draws of \<open>Math.random()\<close> are arguments of the
  operation that reads them.

  A JavaScript number is modelled by the real number it denotes. The arithmetic of the
  frame timer is the arithmetic of IEEE 754 doubles: the interval \<open>1000 / 60\<close> and
  both subtractions of the frame gate are rounded to the nearest double, ties to even,
  and the remainder is exact, as it is for doubles. The frame gate compares numbers
  that differ in the last bits, so its control flow depends on that rounding. The
  attribute buffers of the point cloud hold single-precision values. The other
  quantities (rotation, tilt, colours, mouse coordinates) are computed in exact
  arithmetic. \<open>NaN\<close> and the infinities do not occur: every statement below that
  depends on a quotient assumes its divisor is not zero.
\<close>

subsection \<open>Numbers\<close>

text \<open>
  The binary exponent of a non-zero number: \<open>2 ^ expo x \<le> |x| < 2 ^ (expo x + 1)\<close>.
\<close>

definition expo :: "real \<Rightarrow> int" where
  "expo x =
     (if 1 \<le> \<bar>x\<bar> then bitlen \<lfloor>\<bar>x\<bar>\<rfloor> - 1 else - bitlen (\<lceil>1 / \<bar>x\<bar>\<rceil> - 1))"

text \<open>Rounding to the nearest integer, ties to the even one.\<close>

definition round_even :: "real \<Rightarrow> int" where
  "round_even y =
     (let f = \<lfloor>y\<rfloor>
      in if y - of_int f < 1 / 2 then f
         else if 1 / 2 < y - of_int f then f + 1
         else if even f then f else f + 1)"

text \<open>
  Rounding to a binary floating-point format with \<open>p\<close> significant bits and least
  normal exponent \<open>emin\<close>: the result is the multiple of the unit in the last place
  nearest to \<open>x\<close>. Overflow to infinity is not modelled.
\<close>

definition ieee_round :: "int \<Rightarrow> int \<Rightarrow> real \<Rightarrow> real" where
  "ieee_round p emin x =
     (if x = 0 then 0
      else (let u = 2 powi (max (expo x) emin - (p - 1))
            in u * of_int (round_even (x / u))))"

definition to_double :: "real \<Rightarrow> real" where
  "to_double x = ieee_round 53 (- 1022) x"

text \<open>Storing into a \<open>Float32Array\<close> rounds to single precision.\<close>

definition fround :: "real \<Rightarrow> real" where
  "fround x = ieee_round 24 (- 126) x"

text \<open>The subtraction \<open>x - y\<close> of two doubles.\<close>

definition jsub :: "real \<Rightarrow> real \<Rightarrow> real" where
  "jsub x y = to_double (x - y)"

definition js_trunc :: "real \<Rightarrow> int" where
  "js_trunc x = (if 0 \<le> x then \<lfloor>x\<rfloor> else \<lceil>x\<rceil>)"

text \<open>
  The remainder operator \<open>x % y\<close>: the result has the sign of the dividend. On doubles
  the result is exact.
\<close>

definition js_rem :: "real \<Rightarrow> real \<Rightarrow> real" where
  "js_rem x y = x - y * of_int (js_trunc (x / y))"

subsection \<open>Constants of the class\<close>

definition particleCount :: nat where
  "particleCount = 4500"

definition MAX_WIDTH :: real where
  "MAX_WIDTH = 1920"

definition MAX_HEIGHT :: real where
  "MAX_HEIGHT = 1080"

definition MOUSE_MOVE_THROTTLE_MS :: real where
  "MOUSE_MOVE_THROTTLE_MS = 16"

definition fps :: real where
  "fps = 60"

definition fpsInterval :: real where
  "fpsInterval = to_double (1000 / fps)"

subsection \<open>Objects of the rendering library\<close>

record color =
  col_r :: real
  col_g :: real
  col_b :: real

text \<open>
  \<open>new THREE.Color(hex)\<close>: one byte per channel, scaled to \<open>[0, 1]\<close>; the library's
  colour-space conversion is not modelled.
\<close>

definition Color :: "nat \<Rightarrow> color" where
  "Color hex = \<lparr> col_r = real (hex div 65536 mod 256) / 255,
                 col_g = real (hex div 256 mod 256) / 255,
                 col_b = real (hex mod 256) / 255 \<rparr>"

text \<open>\<open>c.lerp(d, alpha)\<close>: each channel moves by \<open>alpha\<close> of the way to \<open>d\<close>.\<close>

definition lerp :: "color \<Rightarrow> color \<Rightarrow> real \<Rightarrow> color" where
  "lerp c d alpha = \<lparr> col_r = col_r c + (col_r d - col_r c) * alpha,
                      col_g = col_g c + (col_g d - col_g c) * alpha,
                      col_b = col_b c + (col_b d - col_b c) * alpha \<rparr>"

record canvas =
  cv_width :: real
  cv_height :: real

record renderer =
  r_width :: real
  r_height :: real
  pixelRatio :: real
  renders :: nat
  disposed :: bool

record scene =
  children :: nat

record camera =
  aspect :: real
  position_y :: real
  position_z :: real

record geometry =
  positions :: "real list"
  colors :: "real list"
  sizes :: "real list"

record mesh =
  rotation_x :: real
  rotation_y :: real
  rotation_z :: real
  geom :: geometry

subsection \<open>Function objects and the host window\<close>

text \<open>
  Listeners are compared by reference. The class has two function objects of its own:
  the arrow function stored in the field \<open>debouncedOnResize\<close> and the method
  \<open>onMouseMove\<close>. Every evaluation of \<open>f.bind(this)\<close> allocates a new function object,
  \<open>Bound f k\<close>, where \<open>k\<close> is the allocation number.
\<close>

datatype callback = debouncedOnResize_fn | onMouseMove_fn | Bound callback nat

record world =
  \<comment> \<open>fields of the service\<close>
  canvas :: "canvas option"
  renderer :: "renderer option"
  scene :: "scene option"
  camera :: "camera option"
  particlesMesh :: "mesh option"
  animationFrameId :: nat
  progress :: real
  mouseX :: real
  mouseY :: real
  currentRotationSpeed :: real
  targetRotationSpeed :: real
  resizeTimeout :: "nat option"
  lastMouseMoveTime :: real
  then_ms :: real
  \<comment> \<open>the host: window size, listener table, pending timers and frame callbacks\<close>
  innerWidth :: real
  innerHeight :: real
  listeners :: "(string \<times> callback) list"
  timers :: "(nat \<times> real) list"
  rafQueue :: "nat list"
  nextHandle :: nat

text \<open>The field initialisers of the class, in a window of the given size.\<close>

definition initial :: "real \<Rightarrow> real \<Rightarrow> world" where
  "initial w h = \<lparr> canvas = None, renderer = None, scene = None, camera = None,
     particlesMesh = None, animationFrameId = 0, progress = 0, mouseX = 0, mouseY = 0,
     currentRotationSpeed = 0.001, targetRotationSpeed = 0.001, resizeTimeout = None,
     lastMouseMoveTime = 0, then_ms = 0,
     innerWidth = w, innerHeight = h, listeners = [], timers = [], rafQueue = [],
     nextHandle = 1 \<rparr>"

subsection \<open>Host primitives\<close>

definition addEventListener :: "string \<Rightarrow> callback \<Rightarrow> world \<Rightarrow> world" where
  "addEventListener ty f s =
     (if (ty, f) \<in> set (listeners s) then s
      else s\<lparr>listeners := listeners s @ [(ty, f)]\<rparr>)"

definition removeEventListener :: "string \<Rightarrow> callback \<Rightarrow> world \<Rightarrow> world" where
  "removeEventListener ty f s =
     s\<lparr>listeners := filter (\<lambda>l. l \<noteq> (ty, f)) (listeners s)\<rparr>"

text \<open>\<open>setTimeout\<close> and \<open>requestAnimationFrame\<close> return a fresh non-zero handle.\<close>

definition setTimeout :: "real \<Rightarrow> world \<Rightarrow> nat \<times> world" where
  "setTimeout delay s =
     (nextHandle s,
      s\<lparr>timers := timers s @ [(nextHandle s, delay)], nextHandle := nextHandle s + 1\<rparr>)"

definition clearTimeout :: "nat option \<Rightarrow> world \<Rightarrow> world" where
  "clearTimeout h s =
     (case h of None \<Rightarrow> s
      | Some i \<Rightarrow> s\<lparr>timers := filter (\<lambda>t. fst t \<noteq> i) (timers s)\<rparr>)"

definition requestAnimationFrame :: "world \<Rightarrow> nat \<times> world" where
  "requestAnimationFrame s =
     (nextHandle s,
      s\<lparr>rafQueue := rafQueue s @ [nextHandle s], nextHandle := nextHandle s + 1\<rparr>)"

definition cancelAnimationFrame :: "nat \<Rightarrow> world \<Rightarrow> world" where
  "cancelAnimationFrame i s = s\<lparr>rafQueue := filter (\<lambda>j. j \<noteq> i) (rafQueue s)\<rparr>"

definition bind_this :: "callback \<Rightarrow> world \<Rightarrow> callback \<times> world" where
  "bind_this f s = (Bound f (nextHandle s), s\<lparr>nextHandle := nextHandle s + 1\<rparr>)"

section \<open>The point cloud generator\<close>

definition branchAngle :: "nat \<Rightarrow> real" where
  "branchAngle i = real (i mod 3) * ((2 * pi) / 3)"

text \<open>The locals of one iteration of the loop in \<open>createGalaxySystem\<close>.\<close>

record particle =
  p_radius :: real
  p_spinAngle :: real
  p_branchAngle :: real
  p_x :: real
  p_y :: real
  p_z :: real
  p_color :: color
  p_size :: real

definition colorInside :: color where
  "colorInside = Color 0xffbf00"

definition colorOutside :: color where
  "colorOutside = Color 0xffffff"

text \<open>
  Iteration \<open>i\<close> makes nine draws of \<open>Math.random()\<close>, in the order of the source;
  \<open>rnd k\<close> is the \<open>k\<close>-th draw since the loop started.
\<close>

definition particleAt :: "(nat \<Rightarrow> real) \<Rightarrow> nat \<Rightarrow> particle" where
  "particleAt rnd i =
     (let radius = rnd (9 * i) * 200;
          spinAngle = radius * 0.05;
          ba = branchAngle i;
          randomX = (rnd (9 * i + 1)) ^ 3 * (if rnd (9 * i + 2) < 0.5 then 1 else -1) * 30;
          randomY = (rnd (9 * i + 3)) ^ 3 * (if rnd (9 * i + 4) < 0.5 then 1 else -1) * 30;
          randomZ = (rnd (9 * i + 5)) ^ 3 * (if rnd (9 * i + 6) < 0.5 then 1 else -1) * 30;
          x = cos (ba + spinAngle) * radius + randomX;
          y = (rnd (9 * i + 7) - 0.5) * (radius * 0.2) + randomY;
          z = sin (ba + spinAngle) * radius + randomZ;
          mixedColor = lerp colorInside colorOutside (radius / 200)
      in \<lparr> p_radius = radius, p_spinAngle = spinAngle, p_branchAngle = ba,
           p_x = x, p_y = y, p_z = z, p_color = mixedColor,
           p_size = rnd (9 * i + 8) * 2 \<rparr>)"

definition galaxyParticles :: "(nat \<Rightarrow> real) \<Rightarrow> particle list" where
  "galaxyParticles rnd = map (particleAt rnd) [0..<particleCount]"

text \<open>The three attribute buffers filled by the loop, each a \<open>Float32Array\<close>.\<close>

definition galaxyGeometry :: "(nat \<Rightarrow> real) \<Rightarrow> geometry" where
  "galaxyGeometry rnd =
     (let ps = galaxyParticles rnd
      in \<lparr> positions = concat (map (\<lambda>p. [fround (p_x p), fround (p_y p), fround (p_z p)]) ps),
           colors = concat (map (\<lambda>p. [fround (col_r (p_color p)), fround (col_g (p_color p)),
                                        fround (col_b (p_color p))]) ps),
           sizes = map (\<lambda>p. fround (p_size p)) ps \<rparr>)"

definition createGalaxySystem :: "(nat \<Rightarrow> real) \<Rightarrow> world \<Rightarrow> world" where
  "createGalaxySystem rnd s =
     (case scene s of None \<Rightarrow> s
      | Some sc \<Rightarrow>
          s\<lparr>particlesMesh := Some \<lparr> rotation_x = 0, rotation_y = 0, rotation_z = 0,
                                    geom = galaxyGeometry rnd \<rparr>,
            scene := Some (sc\<lparr>children := children sc + 1\<rparr>)\<rparr>)"

section \<open>Operations of the service\<close>

definition setProgress :: "real \<Rightarrow> world \<Rightarrow> world" where
  "setProgress p s = s\<lparr>progress := p\<rparr>"

definition onResize :: "world \<Rightarrow> world" where
  "onResize s =
     (case (camera s, renderer s) of
        (Some cam, Some r) \<Rightarrow>
          (let newWidth = min (innerWidth s) MAX_WIDTH;
               newHeight = min (innerHeight s) MAX_HEIGHT
           in s\<lparr>camera := Some (cam\<lparr>aspect := newWidth / newHeight\<rparr>),
                renderer := Some (r\<lparr>r_width := newWidth, r_height := newHeight\<rparr>)\<rparr>)
      | _ \<Rightarrow> s)"

definition debouncedOnResize :: "world \<Rightarrow> world" where
  "debouncedOnResize s =
     (let s1 = clearTimeout (resizeTimeout s) s;
          (h, s2) = setTimeout 150 s1
      in s2\<lparr>resizeTimeout := Some h\<rparr>)"

definition onMouseMove :: "real \<Rightarrow> real \<Rightarrow> real \<Rightarrow> world \<Rightarrow> world" where
  "onMouseMove clientX clientY now s =
     (if now - lastMouseMoveTime s < MOUSE_MOVE_THROTTLE_MS then s
      else s\<lparr>lastMouseMoveTime := now,
             mouseX := (clientX / innerWidth s) * 2 - 1,
             mouseY := - (clientY / innerHeight s) * 2 + 1\<rparr>)"

definition isProcessing :: "world \<Rightarrow> bool" where
  "isProcessing s \<longleftrightarrow> progress s > 0 \<and> progress s < 100"

definition targetSpeed :: "world \<Rightarrow> real" where
  "targetSpeed s = (if isProcessing s then 0.05 else 0.001)"

text \<open>
  The render logic of \<open>animate\<close>, after the gate: nothing happens unless scene, camera,
  renderer and mesh are all present. \<open>now2\<close> is the second reading of \<open>Date.now()\<close>.
\<close>

definition renderLogic :: "real \<Rightarrow> world \<Rightarrow> world" where
  "renderLogic now2 s =
     (case (scene s, camera s, renderer s, particlesMesh s) of
        (Some sc, Some cam, Some r, Some m) \<Rightarrow>
          (let speed = currentRotationSpeed s + (targetSpeed s - currentRotationSpeed s) * 0.05;
               targetTiltX = mouseY s * 0.2;
               targetTiltZ = mouseX s * 0.1;
               time = now2 * 0.0005
           in s\<lparr>currentRotationSpeed := speed,
                particlesMesh := Some (m\<lparr>
                  rotation_y := rotation_y m + speed,
                  rotation_x := rotation_x m + (targetTiltX - rotation_x m) * 0.05,
                  rotation_z := rotation_z m + (targetTiltZ - rotation_z m) * 0.05\<rparr>),
                camera := Some (cam\<lparr>position_y := 100 + sin time * 10\<rparr>),
                renderer := Some (r\<lparr>renders := renders r + 1\<rparr>)\<rparr>)
      | _ \<Rightarrow> s)"

text \<open>The local \<open>elapsed = now - this.then\<close> of \<open>animate\<close>.\<close>

definition elapsed :: "real \<Rightarrow> world \<Rightarrow> real" where
  "elapsed now s = jsub now (then_ms s)"

definition animate :: "real \<Rightarrow> real \<Rightarrow> world \<Rightarrow> world" where
  "animate now now2 s =
     (let (h, s1) = requestAnimationFrame s;
          s2 = s1\<lparr>animationFrameId := h\<rparr>
      in if elapsed now s2 > fpsInterval
         then renderLogic now2
                (s2\<lparr>then_ms := jsub now (js_rem (elapsed now s2) fpsInterval)\<rparr>)
         else s2)"

text \<open>
  \<open>init\<close> reads the device pixel ratio, the random source and three clock readings: one
  for the timer baseline and two inside the first call of \<open>animate\<close>.
\<close>

definition init ::
  "canvas \<Rightarrow> real \<Rightarrow> (nat \<Rightarrow> real) \<Rightarrow> real \<Rightarrow> real \<Rightarrow> real \<Rightarrow> world \<Rightarrow> world" where
  "init cv devicePixelRatio rnd t0 now now2 s =
     (let s1 = s\<lparr>canvas := Some cv,
                 renderer := Some \<lparr> r_width = cv_width cv, r_height = cv_height cv,
                                    pixelRatio = min devicePixelRatio 1.5,
                                    renders = 0, disposed = False \<rparr>,
                 scene := Some \<lparr> children = 0 \<rparr>,
                 camera := Some \<lparr> aspect = innerWidth s / innerHeight s,
                                  position_y = 100, position_z = 400 \<rparr>\<rparr>;
          s2 = createGalaxySystem rnd s1;
          s3 = addEventListener ''resize'' debouncedOnResize_fn s2;
          (f, s4) = bind_this onMouseMove_fn s3;
          s5 = addEventListener ''mousemove'' f s4;
          s6 = onResize s5;
          s7 = s6\<lparr>then_ms := t0\<rparr>
      in animate now now2 s7)"

definition destroy :: "world \<Rightarrow> world" where
  "destroy s =
     (let s1 = (if animationFrameId s \<noteq> 0 then cancelAnimationFrame (animationFrameId s) s
                else s);
          s2 = removeEventListener ''resize'' debouncedOnResize_fn s1;
          s3 = clearTimeout (resizeTimeout s2) s2;
          s4 = removeEventListener ''mousemove'' onMouseMove_fn s3
      in case renderer s4 of None \<Rightarrow> s4
         | Some r \<Rightarrow> s4\<lparr>renderer := Some (r\<lparr>disposed := True\<rparr>)\<rparr>)"

section \<open>The host's event loop\<close>

text \<open>
  What the host does with a registered function object when an event of its type
  arrives. The unbound method is never registered by the class; called by the window it
  would not have the service as its receiver, so it leaves the service alone.
\<close>

datatype dom_event = ResizeEvent | MouseEvent real real real

fun invoke :: "callback \<Rightarrow> dom_event \<Rightarrow> world \<Rightarrow> world" where
  "invoke debouncedOnResize_fn ev s = debouncedOnResize s"
| "invoke (Bound onMouseMove_fn k) (MouseEvent cx cy now) s = onMouseMove cx cy now s"
| "invoke f ev s = s"

definition event_type :: "dom_event \<Rightarrow> string" where
  "event_type ev = (case ev of ResizeEvent \<Rightarrow> ''resize'' | MouseEvent cx cy now \<Rightarrow> ''mousemove'')"

definition dispatch :: "dom_event \<Rightarrow> world \<Rightarrow> world" where
  "dispatch ev s =
     fold (\<lambda>l. invoke (snd l) ev) (filter (\<lambda>l. fst l = event_type ev) (listeners s)) s"

text \<open>
  The steps of a run: calls of the public methods by the owner of the service, and
  events of the host. A display refresh runs the frame callbacks that were pending when
  it started; a timer that fires runs the resize handler.
\<close>

datatype step =
    CallInit canvas real "nat \<Rightarrow> real" real real real
  | CallSetProgress real
  | CallDestroy
  | WindowResized real real
  | MouseMoved real real real
  | TimerFired nat
  | Refresh real real

definition refresh :: "real \<Rightarrow> real \<Rightarrow> world \<Rightarrow> world" where
  "refresh now now2 s = fold (\<lambda>i. animate now now2) (rafQueue s) (s\<lparr>rafQueue := []\<rparr>)"

definition timerFired :: "nat \<Rightarrow> world \<Rightarrow> world" where
  "timerFired i s =
     (if i \<in> fst ` set (timers s)
      then onResize (s\<lparr>timers := filter (\<lambda>t. fst t \<noteq> i) (timers s)\<rparr>)
      else s)"

fun exec :: "step \<Rightarrow> world \<Rightarrow> world" where
  "exec (CallInit cv dpr rnd t0 now now2) s = init cv dpr rnd t0 now now2 s"
| "exec (CallSetProgress p) s = setProgress p s"
| "exec CallDestroy s = destroy s"
| "exec (WindowResized w h) s = dispatch ResizeEvent (s\<lparr>innerWidth := w, innerHeight := h\<rparr>)"
| "exec (MouseMoved cx cy now) s = dispatch (MouseEvent cx cy now) s"
| "exec (TimerFired i) s = timerFired i s"
| "exec (Refresh now now2) s = refresh now now2 s"

definition run :: "world \<Rightarrow> step list \<Rightarrow> world" where
  "run s steps = fold exec steps s"

section \<open>Observers and example states\<close>

text \<open>The guard of the render logic: all four handles are present.\<close>

definition ready :: "world \<Rightarrow> bool" where
  "ready s \<longleftrightarrow>
     scene s \<noteq> None \<and> camera s \<noteq> None \<and> renderer s \<noteq> None \<and> particlesMesh s \<noteq> None"

text \<open>The number of draw calls issued through the current renderer.\<close>

definition drawCalls :: "world \<Rightarrow> nat" where
  "drawCalls s = (case renderer s of None \<Rightarrow> 0 | Some r \<Rightarrow> renders r)"

definition outputSize :: "world \<Rightarrow> (real \<times> real) option" where
  "outputSize s = map_option (\<lambda>r. (r_width r, r_height r)) (renderer s)"

definition cameraAspect :: "world \<Rightarrow> real option" where
  "cameraAspect s = map_option aspect (camera s)"

definition meshRotationY :: "world \<Rightarrow> real" where
  "meshRotationY s = (case particlesMesh s of None \<Rightarrow> 0 | Some m \<Rightarrow> rotation_y m)"

text \<open>
  A reading of \<open>Date.now()\<close>: a whole number of milliseconds, here one that is at least
  64 ms after the epoch.
\<close>

definition dateNow :: "real \<Rightarrow> bool" where
  "dateNow t \<longleftrightarrow> of_int \<lfloor>t\<rfloor> = t \<and> 64 \<le> t"

text \<open>The readings of \<open>Date.now()\<close> that a step feeds to the frame timer.\<close>

fun timerClocks :: "step \<Rightarrow> real list" where
  "timerClocks (CallInit cv dpr rnd t0 now now2) = [t0, now]"
| "timerClocks (Refresh now now2) = [now]"
| "timerClocks e = []"

definition wholeMsClocks :: "step list \<Rightarrow> bool" where
  "wholeMsClocks steps = list_all dateNow (concat (map timerClocks steps))"

text \<open>The multiples of \<open>2 ^ - 47\<close>.\<close>

definition onGrid :: "real \<Rightarrow> bool" where
  "onGrid x \<longleftrightarrow> x * 2 ^ 47 \<in> \<int>"

text \<open>
  Two quantities for bounding the frame rate: a range for the timer baseline, and the
  draw calls weighed against the baseline. Each frame's work moves the baseline forward
  by one interval, up to two roundings of at most \<open>2 ^ - 10\<close> each.
\<close>

definition timerInv :: "real \<Rightarrow> world \<Rightarrow> bool" where
  "timerInv B s \<longleftrightarrow> - 18 \<le> then_ms s \<and> then_ms s \<le> B + 1 / 1024"

definition budget :: "world \<Rightarrow> real" where
  "budget s = real (drawCalls s) * (fpsInterval - 1 / 512) - then_ms s"

text \<open>A sequence of display refreshes at the given clock readings.\<close>

definition callbacks :: "real list \<Rightarrow> world \<Rightarrow> world" where
  "callbacks ts s = run s (map (\<lambda>t. Refresh t t) ts)"

text \<open>
  A service initialised at clock reading \<open>t0\<close> in a window of size \<open>w\<close> by \<open>h\<close>, on a
  default-sized canvas, with device pixel ratio 1 and a random source that always
  draws 0.
\<close>

definition started :: "real \<Rightarrow> real \<Rightarrow> real \<Rightarrow> world" where
  "started w h t0 =
     init \<lparr>cv_width = 300, cv_height = 150\<rparr> 1 (\<lambda>k. 0) t0 t0 t0 (initial w h)"

section \<open>Basic facts\<close>

lemmas host_defs = addEventListener_def removeEventListener_def setTimeout_def
  clearTimeout_def requestAnimationFrame_def cancelAnimationFrame_def bind_this_def

subsection \<open>Rounding\<close>

lemma bitlen_numeral_eval:
  "bitlen (numeral n) = bitlen (numeral n div 2) + 1"
  by (subst compute_bitlen) simp

lemma bitlen_one: "bitlen 1 = 1"
  by (subst compute_bitlen) simp

lemmas double_eval = jsub_def to_double_def ieee_round_def expo_def round_even_def Let_def
  bitlen_numeral_eval bitlen_one

lemma pow2_le_imp_le:
  assumes "(2::real) powi m \<le> 2 powi n"
  shows "m \<le> n"
proof (rule ccontr)
  assume "\<not> m \<le> n"
  then have "n < m" by simp
  then have "(2::real) powi n < 2 powi m" by (intro power_int_strict_increasing) simp_all
  then show False using assms by simp
qed

lemma pow2_less_imp_less:
  assumes "(2::real) powi m < 2 powi n"
  shows "m < n"
proof (rule ccontr)
  assume "\<not> m < n"
  then have "n \<le> m" by simp
  then have "(2::real) powi n \<le> 2 powi m" by (intro power_int_increasing) simp_all
  then show False using assms by simp
qed

lemma expo_bounds:
  assumes "x \<noteq> 0"
  shows "2 powi expo x \<le> \<bar>x\<bar>" and "\<bar>x\<bar> < 2 powi (expo x + 1)"
proof -
  define a where "a = \<bar>x\<bar>"
  have a: "0 < a" using assms by (simp add: a_def)
  have "2 powi expo x \<le> a \<and> a < 2 powi (expo x + 1)"
  proof (cases "1 \<le> a")
    case True
    define m where "m = \<lfloor>a\<rfloor>"
    have m: "0 < m" using True by (simp add: m_def)
    define b where "b = bitlen m"
    have b1: "1 \<le> b" using m by (auto simp: b_def bitlen_alt_def)
    have e: "expo x = b - 1" using True by (simp add: expo_def a_def [symmetric] m_def b_def)
    from bitlen_bounds [OF m] have lo: "2 ^ nat (b - 1) \<le> m" and hi: "m < 2 ^ nat b"
      by (simp_all add: b_def)
    have "real_of_int (2 ^ nat (b - 1)) \<le> of_int m" using lo by (simp only: of_int_le_iff)
    also have "\<dots> \<le> a" by (simp add: m_def)
    finally have l: "2 powi (b - 1) \<le> a" using b1 by (simp add: power_int_def)
    have "m + 1 \<le> 2 ^ nat b" using hi by simp
    then have "real_of_int (m + 1) \<le> of_int (2 ^ nat b)" by (simp only: of_int_le_iff)
    moreover have "a < of_int (m + 1)" by (simp add: m_def)
    ultimately have h: "a < 2 powi b" using b1 by (simp add: power_int_def)
    show ?thesis using l h e by simp
  next
    case False
    then have y: "1 < 1 / a" using a by simp
    define m where "m = \<lceil>1 / a\<rceil> - 1"
    have m: "0 < m" using y by (simp add: m_def)
    define b where "b = bitlen m"
    have b1: "1 \<le> b" using m by (auto simp: b_def bitlen_alt_def)
    have e: "expo x = - b" using False by (simp add: expo_def a_def [symmetric] m_def b_def)
    from bitlen_bounds [OF m] have lo: "2 ^ nat (b - 1) \<le> m" and hi: "m < 2 ^ nat b"
      by (simp_all add: b_def)
    have p: "(0::real) < 2 ^ nat b" "(0::real) < 2 ^ nat (b - 1)" by simp_all
    have "m + 1 \<le> 2 ^ nat b" using hi by simp
    then have "real_of_int (m + 1) \<le> of_int (2 ^ nat b)" by (simp only: of_int_le_iff)
    moreover have "1 / a \<le> of_int (m + 1)" by (simp add: m_def)
    ultimately have "1 / a \<le> 2 ^ nat b" by simp
    then have "1 \<le> 2 ^ nat b * a" using a by (simp add: field_simps)
    then have l: "1 / 2 ^ nat b \<le> a" using p(1) by (simp add: field_simps)
    have "real_of_int (2 ^ nat (b - 1)) \<le> of_int m" using lo by (simp only: of_int_le_iff)
    moreover have "real_of_int m < 1 / a" by (simp add: m_def) linarith
    ultimately have "real_of_int (2 ^ nat (b - 1)) < 1 / a" by (rule le_less_trans)
    then have "2 ^ nat (b - 1) < 1 / a" by simp
    then have "2 ^ nat (b - 1) * a < 1" using a by (simp add: field_simps)
    then have h: "a < 1 / 2 ^ nat (b - 1)" using p(2) by (simp add: field_simps)
    have pl: "2 powi (- b) = (1::real) / 2 ^ nat b"
      using b1 by (simp add: power_int_def field_simps)
    have ph: "2 powi (- b + 1) = (1::real) / 2 ^ nat (b - 1)"
    proof -
      have "- b + 1 \<le> 0" using b1 by simp
      moreover have "nat (- (- b + 1)) = nat (b - 1)" by simp
      ultimately show ?thesis by (simp add: power_int_def field_simps)
    qed
    show ?thesis using l h e pl ph by simp
  qed
  then show "2 powi expo x \<le> \<bar>x\<bar>" and "\<bar>x\<bar> < 2 powi (expo x + 1)"
    by (simp_all add: a_def)
qed

lemma round_even_of_int [simp]: "round_even (of_int k) = k"
  by (simp add: round_even_def)

lemma round_even_err: "\<bar>of_int (round_even y) - y\<bar> \<le> 1 / 2"
proof -
  have "of_int \<lfloor>y\<rfloor> \<le> y" "y < of_int \<lfloor>y\<rfloor> + 1" by linarith+
  then show ?thesis by (auto simp: round_even_def Let_def)
qed

lemma ieee_round_err:
  assumes "x \<noteq> 0"
  shows "\<bar>ieee_round p emin x - x\<bar> \<le> 2 powi (max (expo x) emin - (p - 1)) / 2"
proof -
  define u :: real where "u = 2 powi (max (expo x) emin - (p - 1))"
  have u: "0 < u" by (simp add: u_def)
  have "ieee_round p emin x = u * of_int (round_even (x / u))"
    using assms unfolding ieee_round_def Let_def u_def by simp
  then have "ieee_round p emin x - x = u * (of_int (round_even (x / u)) - x / u)"
    using u by (simp add: algebra_simps)
  then have "\<bar>ieee_round p emin x - x\<bar> = u * \<bar>of_int (round_even (x / u)) - x / u\<bar>"
    using u by (simp add: abs_mult)
  also have "\<dots> \<le> u * (1 / 2)"
    using u round_even_err [of "x / u"] by (intro mult_left_mono) simp_all
  finally show ?thesis by (simp add: u_def)
qed

lemma to_double_err:
  assumes "\<bar>x\<bar> \<le> 2 ^ 43"
  shows "\<bar>to_double x - x\<bar> \<le> 1 / 1024"
proof (cases "x = 0")
  case True
  then show ?thesis by (simp add: to_double_def ieee_round_def)
next
  case False
  have "\<bar>x\<bar> \<le> 2 powi 43" using assms by simp
  then have "(2::real) powi expo x \<le> 2 powi 43"
    using expo_bounds(1) [OF False] by (rule order_trans [rotated])
  then have e: "expo x \<le> 43" by (rule pow2_le_imp_le)
  then have "max (expo x) (- 1022) - (53 - 1) \<le> - 9" by simp
  then have "(2::real) powi (max (expo x) (- 1022) - (53 - 1)) \<le> 2 powi (- 9)"
    by (intro power_int_increasing) simp_all
  then have "(2::real) powi (max (expo x) (- 1022) - (53 - 1)) / 2 \<le> 1 / 1024"
    by (simp add: power_int_minus_divide)
  then show ?thesis
    using ieee_round_err [OF False, of 53 "- 1022"] by (simp add: to_double_def)
qed

lemma to_double_grid_large:
  assumes "32 \<le> \<bar>x\<bar>"
  shows "to_double x * 2 ^ 47 \<in> \<int>"
proof -
  have nz: "x \<noteq> 0" using assms by auto
  have "(2::real) powi 5 \<le> \<bar>x\<bar>" using assms by simp
  then have "(2::real) powi 5 < 2 powi (expo x + 1)"
    using expo_bounds(2) [OF nz] by (rule le_less_trans)
  then have "5 < expo x + 1" by (rule pow2_less_imp_less)
  then have e: "5 \<le> expo x" by simp
  define n where "n = nat (expo x - 5)"
  have m: "max (expo x) (- 1022) - 52 = int n - 47" using e by (simp add: n_def)
  have u: "(2::real) powi (int n - 47) * 2 ^ 47 = 2 ^ n"
    by (simp add: power_int_diff)
  have "to_double x * 2 ^ 47
      = of_int (round_even (x / 2 powi (int n - 47))) * (2 powi (int n - 47) * 2 ^ 47)"
    using nz by (simp add: to_double_def ieee_round_def Let_def m)
  also have "\<dots> = of_int (round_even (x / 2 powi (int n - 47)) * 2 ^ n)"
    using u by simp
  finally show ?thesis by (simp only: Ints_of_int)
qed

lemma to_double_grid_keep:
  assumes "x * 2 ^ 47 \<in> \<int>"
  shows "to_double x * 2 ^ 47 \<in> \<int>"
proof (cases "32 \<le> \<bar>x\<bar>")
  case True
  then show ?thesis by (rule to_double_grid_large)
next
  case small: False
  show ?thesis
  proof (cases "x = 0")
    case True
    then show ?thesis by (simp add: to_double_def ieee_round_def)
  next
    case False
    have "\<bar>x\<bar> < 2 powi 5" using small by simp
    then have "(2::real) powi expo x < 2 powi 5"
      using expo_bounds(1) [OF False] by (rule le_less_trans [rotated])
    then have "expo x < 5" by (rule pow2_less_imp_less)
    then have m: "max (expo x) (- 1022) - 52 \<le> - 48" by simp
    define j where "j = nat (- (max (expo x) (- 1022) - 52) - 47)"
    have mj: "max (expo x) (- 1022) - 52 = - 47 - int j" using m by (simp add: j_def)
    obtain k :: int where k: "x * 2 ^ 47 = of_int k" using assms by (auto elim: Ints_cases)
    have u: "(2::real) powi (- 47 - int j) = 1 / (2 ^ 47 * 2 ^ j)"
      by (simp add: power_int_diff power_int_minus_divide)
    have "x / 2 powi (- 47 - int j) = (x * 2 ^ 47) * 2 ^ j"
      by (simp add: u)
    also have "\<dots> = of_int (k * 2 ^ j)" using k by simp
    finally have q: "x / 2 powi (- 47 - int j) = of_int (k * 2 ^ j)" .
    have "to_double x = 2 powi (- 47 - int j) * of_int (round_even (x / 2 powi (- 47 - int j)))"
      using False by (simp add: to_double_def ieee_round_def Let_def mj)
    also have "\<dots> = 2 powi (- 47 - int j) * (x / 2 powi (- 47 - int j))"
      unfolding q round_even_of_int ..
    also have "\<dots> = x" by simp
    finally show ?thesis using assms by simp
  qed
qed

lemma to_double_0 [simp]: "to_double 0 = 0"
  by (simp add: to_double_def ieee_round_def)

lemma fpsInterval_eq: "fpsInterval = 4691249611844267 / 281474976710656"
  by (simp add: fpsInterval_def fps_def double_eval)

lemma fpsInterval_pos: "0 < fpsInterval"
  by (simp add: fpsInterval_eq)

lemma fpsInterval_bounds: "16 < fpsInterval" "fpsInterval < 17"
  by (simp_all add: fpsInterval_eq)

text \<open>The interval is an odd multiple of \<open>2 ^ - 48\<close>.\<close>

lemma fpsInterval_off_grid: "\<not> onGrid fpsInterval"
proof
  assume "onGrid fpsInterval"
  then obtain k :: int where "fpsInterval * 2 ^ 47 = of_int k"
    by (auto simp: onGrid_def elim: Ints_cases)
  then have "real_of_int 4691249611844267 = of_int (2 * k)"
    by (simp add: fpsInterval_eq)
  then have "(4691249611844267 :: int) = 2 * k"
    by (simp only: of_int_eq_iff)
  then show False by presburger
qed

subsection \<open>Point cloud and listeners\<close>

lemma galaxyParticles_nth:
  "i < particleCount \<Longrightarrow> galaxyParticles rnd ! i = particleAt rnd i"
  by (simp add: galaxyParticles_def)

lemma length_galaxyParticles: "length (galaxyParticles rnd) = particleCount"
  by (simp add: galaxyParticles_def)

lemma listeners_onResize [simp]: "listeners (onResize s) = listeners s"
  by (simp add: onResize_def Let_def split: option.splits)

lemma listeners_renderLogic [simp]: "listeners (renderLogic t s) = listeners s"
  by (simp add: renderLogic_def Let_def split: option.splits)

lemma listeners_animate [simp]: "listeners (animate now now2 s) = listeners s"
  by (simp add: animate_def requestAnimationFrame_def Let_def)

lemma listeners_createGalaxySystem [simp]:
  "listeners (createGalaxySystem rnd s) = listeners s"
  by (simp add: createGalaxySystem_def split: option.splits)

lemma nextHandle_createGalaxySystem [simp]:
  "nextHandle (createGalaxySystem rnd s) = nextHandle s"
  by (simp add: createGalaxySystem_def split: option.splits)

lemma listeners_init:
  "listeners (init cv dpr rnd t0 now now2 s) =
     (let ls = (if (''resize'', debouncedOnResize_fn) \<in> set (listeners s) then listeners s
                else listeners s @ [(''resize'', debouncedOnResize_fn)])
      in if (''mousemove'', Bound onMouseMove_fn (nextHandle s)) \<in> set ls then ls
         else ls @ [(''mousemove'', Bound onMouseMove_fn (nextHandle s))])"
  by (simp add: init_def Let_def addEventListener_def bind_this_def)

lemma listeners_destroy:
  "listeners (destroy s) =
     filter (\<lambda>l. l \<noteq> (''mousemove'', onMouseMove_fn))
       (filter (\<lambda>l. l \<noteq> (''resize'', debouncedOnResize_fn)) (listeners s))"
  by (simp add: destroy_def Let_def removeEventListener_def clearTimeout_def
      cancelAnimationFrame_def split: option.splits)

text \<open>
  Whatever the state \<open>init\<close> starts from, \<open>destroy\<close> removes the resize listener and
  leaves the bound mouse-move listener in the window's table: \<open>destroy\<close> passes the
  unbound method, which was never registered.
\<close>

lemma init_destroy_listeners:
  "(''mousemove'', Bound onMouseMove_fn (nextHandle s))
     \<in> set (listeners (destroy (init cv dpr rnd t0 now now2 s)))
   \<and> (''resize'', debouncedOnResize_fn)
     \<notin> set (listeners (destroy (init cv dpr rnd t0 now now2 s)))"
  by (simp add: listeners_destroy listeners_init Let_def)

subsection \<open>The frame gate\<close>

lemma elapsed_frame_fields [simp]:
  "elapsed now (s\<lparr>rafQueue := q, nextHandle := n, animationFrameId := a\<rparr>) = elapsed now s"
  "elapsed now (s\<lparr>rafQueue := q\<rparr>) = elapsed now s"
  by (simp_all add: elapsed_def)

lemma js_rem_pos:
  assumes "0 < y" and "0 \<le> x"
  shows "js_rem x y = x - y * of_int \<lfloor>x / y\<rfloor>" and "0 \<le> js_rem x y" and "js_rem x y < y"
proof -
  have q: "0 \<le> x / y" using assms by simp
  show e: "js_rem x y = x - y * of_int \<lfloor>x / y\<rfloor>"
    using q by (simp add: js_rem_def js_trunc_def)
  have xy: "y * (x / y) = x" using assms(1) by simp
  have "y * of_int \<lfloor>x / y\<rfloor> \<le> y * (x / y)"
    using assms(1) by (intro mult_left_mono) simp_all
  then show "0 \<le> js_rem x y" using e xy by simp
  have "x / y < of_int \<lfloor>x / y\<rfloor> + 1" by linarith
  then have "y * (x / y) < y * (of_int \<lfloor>x / y\<rfloor> + 1)"
    using assms(1) by (simp only: mult_less_cancel_left_pos)
  then show "js_rem x y < y" using e xy by (simp add: algebra_simps)
qed

lemma js_rem_step:
  assumes "0 < y" and "y < x"
  shows "y \<le> x - js_rem x y"
proof -
  have "1 \<le> x / y" using assms by simp
  then have "1 \<le> \<lfloor>x / y\<rfloor>" by simp
  then have "(1::real) \<le> of_int \<lfloor>x / y\<rfloor>" by linarith
  then have "y * 1 \<le> y * of_int \<lfloor>x / y\<rfloor>"
    using assms(1) by (simp only: mult_le_cancel_left_pos)
  then show ?thesis using js_rem_pos(1) [of y x] assms by simp
qed

lemma animate_closed:
  "\<not> (elapsed now s > fpsInterval) \<Longrightarrow>
   animate now now2 s = s\<lparr>rafQueue := rafQueue s @ [nextHandle s],
                          nextHandle := nextHandle s + 1,
                          animationFrameId := nextHandle s\<rparr>"
  by (simp add: animate_def requestAnimationFrame_def Let_def)

lemma animate_open:
  "elapsed now s > fpsInterval \<Longrightarrow>
   animate now now2 s = renderLogic now2 (s\<lparr>rafQueue := rafQueue s @ [nextHandle s],
                          nextHandle := nextHandle s + 1,
                          animationFrameId := nextHandle s,
                          then_ms := jsub now (js_rem (elapsed now s) fpsInterval)\<rparr>)"
  by (simp add: animate_def requestAnimationFrame_def Let_def)

lemma animate_open_speed:
  "ready s \<Longrightarrow> elapsed now s > fpsInterval \<Longrightarrow>
   currentRotationSpeed (animate now now2 s)
     = currentRotationSpeed s + (targetSpeed s - currentRotationSpeed s) * 0.05"
  by (auto simp: animate_open renderLogic_def ready_def Let_def targetSpeed_def
      isProcessing_def)

lemma renderLogic_frame [simp]:
  "then_ms (renderLogic t s) = then_ms s"
  "rafQueue (renderLogic t s) = rafQueue s"
  "nextHandle (renderLogic t s) = nextHandle s"
  "animationFrameId (renderLogic t s) = animationFrameId s"
  by (simp_all add: renderLogic_def Let_def split: option.splits)

lemma drawCalls_renderLogic:
  "drawCalls (renderLogic t s) = (if ready s then drawCalls s + 1 else drawCalls s)"
  by (auto simp: renderLogic_def drawCalls_def ready_def Let_def split: option.splits)

lemma ready_frame_fields [simp]:
  "ready (s\<lparr>rafQueue := q, nextHandle := n, animationFrameId := a, then_ms := t\<rparr>) = ready s"
  "ready (s\<lparr>rafQueue := q, nextHandle := n, animationFrameId := a\<rparr>) = ready s"
  "drawCalls (s\<lparr>rafQueue := q, nextHandle := n, animationFrameId := a, then_ms := t\<rparr>)
     = drawCalls s"
  "drawCalls (s\<lparr>rafQueue := q, nextHandle := n, animationFrameId := a\<rparr>) = drawCalls s"
  by (simp_all add: ready_def drawCalls_def)

lemma ready_renderLogic [simp]: "ready (renderLogic t s) = ready s"
  by (auto simp: renderLogic_def ready_def Let_def split: option.splits)

lemma ready_rafQueue_update [simp]: "ready (s\<lparr>rafQueue := q\<rparr>) = ready s"
  by (simp add: ready_def)

lemma drawCalls_rafQueue_update [simp]: "drawCalls (s\<lparr>rafQueue := q\<rparr>) = drawCalls s"
  by (simp add: drawCalls_def)

lemma animate_then_ms:
  "then_ms (animate now now2 s)
     = (if elapsed now s > fpsInterval then jsub now (js_rem (elapsed now s) fpsInterval)
        else then_ms s)"
  by (simp add: animate_open animate_closed)

lemma animate_drawCalls:
  "drawCalls (animate now now2 s)
     = (if elapsed now s > fpsInterval \<and> ready s then drawCalls s + 1 else drawCalls s)"
  by (cases "elapsed now s > fpsInterval")
    (simp_all add: animate_open animate_closed drawCalls_renderLogic)

lemma animate_ready: "ready (animate now now2 s) = ready s"
  by (cases "elapsed now s > fpsInterval") (simp_all add: animate_open animate_closed)

lemma animate_rafQueue: "rafQueue (animate now now2 s) = rafQueue s @ [nextHandle s]"
  by (cases "elapsed now s > fpsInterval") (simp_all add: animate_open animate_closed)

lemma started_eq:
  "h \<noteq> 0 \<Longrightarrow> started w h t0 =
     \<lparr> canvas = Some \<lparr>cv_width = 300, cv_height = 150\<rparr>,
       renderer = Some \<lparr> r_width = min w 1920, r_height = min h 1080, pixelRatio = 1,
                          renders = 0, disposed = False \<rparr>,
       scene = Some \<lparr> children = 1 \<rparr>,
       camera = Some \<lparr> aspect = min w 1920 / min h 1080, position_y = 100,
                        position_z = 400 \<rparr>,
       particlesMesh = Some \<lparr> rotation_x = 0, rotation_y = 0, rotation_z = 0,
                               geom = galaxyGeometry (\<lambda>k. 0) \<rparr>,
       animationFrameId = 2, progress = 0, mouseX = 0, mouseY = 0,
       currentRotationSpeed = 1 / 1000, targetRotationSpeed = 1 / 1000,
       resizeTimeout = None, lastMouseMoveTime = 0, then_ms = t0,
       innerWidth = w, innerHeight = h,
       listeners = [(''resize'', debouncedOnResize_fn), (''mousemove'', Bound onMouseMove_fn 1)],
       timers = [], rafQueue = [2], nextHandle = 3 \<rparr>"
  by (simp add: started_def init_def initial_def host_defs Let_def onResize_def animate_def
      createGalaxySystem_def MAX_WIDTH_def MAX_HEIGHT_def elapsed_def jsub_def
      fpsInterval_pos [THEN less_imp_le, THEN leD])

lemma callbacks_Nil [simp]: "callbacks [] s = s"
  by (simp add: callbacks_def run_def)

lemma callbacks_Cons [simp]: "callbacks (t # ts) s = callbacks ts (refresh t t s)"
  by (simp add: callbacks_def run_def)

lemma refresh_single:
  assumes "ready s" and "rafQueue s = [i]"
  shows "ready (refresh t t2 s)"
    and "rafQueue (refresh t t2 s) = [nextHandle s]"
    and "then_ms (refresh t t2 s)
           = (if jsub t (then_ms s) > fpsInterval
              then jsub t (js_rem (jsub t (then_ms s)) fpsInterval)
              else then_ms s)"
    and "drawCalls (refresh t t2 s)
           = (if jsub t (then_ms s) > fpsInterval then drawCalls s + 1 else drawCalls s)"
  using assms
  by (simp_all add: refresh_def animate_ready animate_rafQueue animate_then_ms
      animate_drawCalls elapsed_def)

text \<open>
  The timer baseline and the number of draw calls of a ready service with one pending
  callback evolve by themselves.
\<close>

lemma callbacks_trace:
  assumes "ready s" and "rafQueue s = [i]"
  shows "(then_ms (callbacks ts s), drawCalls (callbacks ts s))
     = fold (\<lambda>t (th, n). if jsub t th > fpsInterval
                          then (jsub t (js_rem (jsub t th) fpsInterval), n + 1)
                          else (th, n)) ts (then_ms s, drawCalls s)"
  using assms
proof (induction ts arbitrary: s i)
  case Nil
  then show ?case by simp
next
  case (Cons t ts)
  have r: "ready (refresh t t s)" "rafQueue (refresh t t s) = [nextHandle s]"
    using refresh_single(1,2) [OF Cons.prems] by simp_all
  show ?case
    using Cons.IH [OF r] refresh_single(3,4) [OF Cons.prems, of t t]
    by simp
qed

subsection \<open>The rotation speed\<close>

lemma speed_onResize [simp]: "currentRotationSpeed (onResize s) = currentRotationSpeed s"
  by (simp add: onResize_def Let_def split: option.splits)

lemma speed_debouncedOnResize [simp]:
  "currentRotationSpeed (debouncedOnResize s) = currentRotationSpeed s"
  by (simp add: debouncedOnResize_def setTimeout_def clearTimeout_def Let_def split: option.splits)

lemma speed_onMouseMove [simp]:
  "currentRotationSpeed (onMouseMove cx cy now s) = currentRotationSpeed s"
  by (simp add: onMouseMove_def)

lemma speed_invoke [simp]: "currentRotationSpeed (invoke f ev s) = currentRotationSpeed s"
  by (induction f ev s rule: invoke.induct) simp_all

lemma speed_fold_invoke [simp]:
  "currentRotationSpeed (fold (\<lambda>l. invoke (snd l) ev) ls s) = currentRotationSpeed s"
  by (induction ls arbitrary: s) simp_all

lemma speed_dispatch [simp]: "currentRotationSpeed (dispatch ev s) = currentRotationSpeed s"
  by (simp add: dispatch_def)

lemma speed_timerFired [simp]: "currentRotationSpeed (timerFired i s) = currentRotationSpeed s"
  by (simp add: timerFired_def)

lemma speed_destroy [simp]: "currentRotationSpeed (destroy s) = currentRotationSpeed s"
  by (simp add: destroy_def Let_def removeEventListener_def clearTimeout_def
      cancelAnimationFrame_def split: option.splits)

lemma speed_createGalaxySystem [simp]:
  "currentRotationSpeed (createGalaxySystem rnd s) = currentRotationSpeed s"
  by (simp add: createGalaxySystem_def split: option.splits)

lemma speed_renderLogic:
  "currentRotationSpeed (renderLogic t s)
     = (if ready s then currentRotationSpeed s + (targetSpeed s - currentRotationSpeed s) * 0.05
        else currentRotationSpeed s)"
  by (auto simp: renderLogic_def ready_def Let_def split: option.splits)

lemma targetSpeed_range: "targetSpeed s = 1 / 1000 \<or> targetSpeed s = 5 / 100"
  by (simp add: targetSpeed_def)

lemma smoothing_in_range:
  fixes c t :: real
  assumes "1 / 1000 \<le> c" "c \<le> 5 / 100" "t = 1 / 1000 \<or> t = 5 / 100"
  shows "1 / 1000 \<le> c + (t - c) * 0.05 \<and> c + (t - c) * 0.05 \<le> 5 / 100"
proof -
  have k: "(0.05 :: real) = 1 / 20" by simp
  from assms(3) show ?thesis
  proof
    assume t: "t = 1 / 1000"
    show ?thesis unfolding t k using assms(1,2) by (simp add: algebra_simps)
  next
    assume t: "t = 5 / 100"
    show ?thesis unfolding t k using assms(1,2) by (simp add: algebra_simps)
  qed
qed

lemma speed_range_renderLogic:
  assumes "1 / 1000 \<le> currentRotationSpeed s" "currentRotationSpeed s \<le> 5 / 100"
  shows "1 / 1000 \<le> currentRotationSpeed (renderLogic t s)
       \<and> currentRotationSpeed (renderLogic t s) \<le> 5 / 100"
proof (cases "ready s")
  case True
  then show ?thesis
    using smoothing_in_range [OF assms targetSpeed_range [of s]]
    by (simp only: speed_renderLogic if_True)
next
  case False
  then show ?thesis using assms by (simp add: speed_renderLogic)
qed

lemma speed_range_animate:
  assumes "1 / 1000 \<le> currentRotationSpeed s" "currentRotationSpeed s \<le> 5 / 100"
  shows "1 / 1000 \<le> currentRotationSpeed (animate now now2 s)
       \<and> currentRotationSpeed (animate now now2 s) \<le> 5 / 100"
proof (cases "elapsed now s > fpsInterval")
  case True
  show ?thesis
    unfolding animate_open [OF True]
    by (rule speed_range_renderLogic) (use assms in simp_all)
next
  case False
  then show ?thesis using assms by (simp add: animate_closed)
qed

lemma speed_range_fold_animate:
  "1 / 1000 \<le> currentRotationSpeed s \<Longrightarrow> currentRotationSpeed s \<le> 5 / 100 \<Longrightarrow>
   1 / 1000 \<le> currentRotationSpeed (fold (\<lambda>i. animate now now2) q s)
   \<and> currentRotationSpeed (fold (\<lambda>i. animate now now2) q s) \<le> 5 / 100"
proof (induction q arbitrary: s)
  case Nil
  then show ?case by simp
next
  case (Cons i q)
  have "1 / 1000 \<le> currentRotationSpeed (animate now now2 s)
       \<and> currentRotationSpeed (animate now now2 s) \<le> 5 / 100"
    using Cons.prems by (rule speed_range_animate)
  then show ?case using Cons.IH [of "animate now now2 s"] by simp
qed

lemma speed_range_init:
  assumes "1 / 1000 \<le> currentRotationSpeed s" "currentRotationSpeed s \<le> 5 / 100"
  shows "1 / 1000 \<le> currentRotationSpeed (init cv dpr rnd t0 now now2 s)
       \<and> currentRotationSpeed (init cv dpr rnd t0 now now2 s) \<le> 5 / 100"
  unfolding init_def Let_def bind_this_def split_conv
  by (rule speed_range_animate) (use assms in \<open>simp_all add: addEventListener_def\<close>)

lemma speed_range_exec:
  assumes "1 / 1000 \<le> currentRotationSpeed s" "currentRotationSpeed s \<le> 5 / 100"
  shows "1 / 1000 \<le> currentRotationSpeed (exec e s)
       \<and> currentRotationSpeed (exec e s) \<le> 5 / 100"
proof (cases e)
  case (CallInit cv dpr rnd t0 now now2)
  then show ?thesis using speed_range_init [OF assms] by simp
next
  case (Refresh now now2)
  then show ?thesis
    using speed_range_fold_animate [of "s\<lparr>rafQueue := []\<rparr>" now now2 "rafQueue s"] assms
    by (simp add: refresh_def)
qed (use assms in \<open>simp_all add: setProgress_def\<close>)

lemma speed_range_fold_exec:
  "1 / 1000 \<le> currentRotationSpeed s \<Longrightarrow> currentRotationSpeed s \<le> 5 / 100 \<Longrightarrow>
   1 / 1000 \<le> currentRotationSpeed (fold exec steps s)
   \<and> currentRotationSpeed (fold exec steps s) \<le> 5 / 100"
proof (induction steps arbitrary: s)
  case Nil
  then show ?case by simp
next
  case (Cons e steps)
  have "1 / 1000 \<le> currentRotationSpeed (exec e s) \<and> currentRotationSpeed (exec e s) \<le> 5 / 100"
    using Cons.prems by (rule speed_range_exec)
  then show ?case using Cons.IH [of "exec e s"] by simp
qed

lemma speed_range_run:
  "1 / 1000 \<le> currentRotationSpeed (run (initial w h) steps)
   \<and> currentRotationSpeed (run (initial w h) steps) \<le> 5 / 100"
  unfolding run_def
  by (rule speed_range_fold_exec) (simp_all add: initial_def)

lemma meshRotationY_animate:
  "meshRotationY (animate now now2 s)
     = (if elapsed now s > fpsInterval \<and> ready s
        then meshRotationY s + currentRotationSpeed (animate now now2 s)
        else meshRotationY s)"
proof (cases "elapsed now s > fpsInterval")
  case True
  then show ?thesis
    by (auto simp: animate_open renderLogic_def ready_def meshRotationY_def Let_def
        split: option.splits)
next
  case False
  then show ?thesis by (simp add: animate_closed meshRotationY_def)
qed

lemma exec_MouseMoved_started:
  "h \<noteq> 0 \<Longrightarrow>
   exec (MouseMoved cx cy now) (started w h t0) = onMouseMove cx cy now (started w h t0)"
  by (simp add: started_eq dispatch_def event_type_def)

subsection \<open>The timer baseline stays on the grid\<close>

lemma then_onResize [simp]: "then_ms (onResize s) = then_ms s"
  by (simp add: onResize_def Let_def split: option.splits)

lemma then_debouncedOnResize [simp]: "then_ms (debouncedOnResize s) = then_ms s"
  by (simp add: debouncedOnResize_def setTimeout_def clearTimeout_def Let_def
      split: option.splits)

lemma then_onMouseMove [simp]: "then_ms (onMouseMove cx cy now s) = then_ms s"
  by (simp add: onMouseMove_def)

lemma then_invoke [simp]: "then_ms (invoke f ev s) = then_ms s"
  by (induction f ev s rule: invoke.induct) simp_all

lemma then_fold_invoke [simp]:
  "then_ms (fold (\<lambda>l. invoke (snd l) ev) ls s) = then_ms s"
  by (induction ls arbitrary: s) simp_all

lemma then_dispatch [simp]: "then_ms (dispatch ev s) = then_ms s"
  by (simp add: dispatch_def)

lemma then_timerFired [simp]: "then_ms (timerFired i s) = then_ms s"
  by (simp add: timerFired_def)

lemma then_destroy [simp]: "then_ms (destroy s) = then_ms s"
  by (simp add: destroy_def Let_def removeEventListener_def clearTimeout_def
      cancelAnimationFrame_def split: option.splits)

lemma onGrid_whole: "of_int \<lfloor>t\<rfloor> = t \<Longrightarrow> onGrid t"
proof -
  assume "of_int \<lfloor>t\<rfloor> = t"
  then obtain n :: int where n: "t = of_int n" by metis
  have "t * 2 ^ 47 = of_int (n * 2 ^ 47)" unfolding n by simp
  then show ?thesis unfolding onGrid_def by (simp only: Ints_of_int)
qed

lemma onGrid_elapsed:
  assumes "onGrid (then_ms s)" and "of_int \<lfloor>now\<rfloor> = now"
  shows "onGrid (elapsed now s)"
proof -
  have "now * 2 ^ 47 \<in> \<int>" using onGrid_whole [OF assms(2)] by (simp add: onGrid_def)
  moreover have "then_ms s * 2 ^ 47 \<in> \<int>" using assms(1) by (simp add: onGrid_def)
  ultimately have "now * 2 ^ 47 - then_ms s * 2 ^ 47 \<in> \<int>" by (rule Ints_diff)
  then have "(now - then_ms s) * 2 ^ 47 \<in> \<int>" by (simp add: algebra_simps)
  then show ?thesis
    unfolding onGrid_def elapsed_def jsub_def by (rule to_double_grid_keep)
qed

text \<open>
  With the baseline on the grid and a whole-millisecond clock reading, the elapsed time
  is on the grid as well, and the interval is not: the two are never equal.
\<close>

lemma elapsed_neq_interval:
  assumes "onGrid (then_ms s)" and "of_int \<lfloor>now\<rfloor> = now"
  shows "elapsed now s \<noteq> fpsInterval"
  using onGrid_elapsed [OF assms] fpsInterval_off_grid by auto

lemma onGrid_animate:
  assumes "onGrid (then_ms s)" and "dateNow now"
  shows "onGrid (then_ms (animate now now2 s))"
proof (cases "elapsed now s > fpsInterval")
  case True
  then have e: "0 \<le> elapsed now s" using fpsInterval_pos by linarith
  have "js_rem (elapsed now s) fpsInterval < fpsInterval"
    by (rule js_rem_pos(3) [OF fpsInterval_pos e])
  then have "js_rem (elapsed now s) fpsInterval < 17" using fpsInterval_bounds(2) by linarith
  moreover have "64 \<le> now" using assms(2) by (simp add: dateNow_def)
  ultimately have "32 \<le> \<bar>now - js_rem (elapsed now s) fpsInterval\<bar>" by linarith
  then have "to_double (now - js_rem (elapsed now s) fpsInterval) * 2 ^ 47 \<in> \<int>"
    by (rule to_double_grid_large)
  then show ?thesis using True by (simp add: animate_open onGrid_def jsub_def)
next
  case False
  then show ?thesis using assms(1) by (simp add: animate_closed)
qed

lemma onGrid_fold_animate:
  "onGrid (then_ms s) \<Longrightarrow> dateNow now \<Longrightarrow>
   onGrid (then_ms (fold (\<lambda>i. animate now now2) q s))"
  by (induction q arbitrary: s) (simp_all add: onGrid_animate)

lemma onGrid_init:
  assumes "dateNow t0" and "dateNow now"
  shows "onGrid (then_ms (init cv dpr rnd t0 now now2 s))"
  unfolding init_def Let_def bind_this_def split_conv
  by (rule onGrid_animate) (use assms in \<open>simp_all add: onGrid_whole dateNow_def\<close>)

lemma onGrid_exec:
  assumes "onGrid (then_ms s)" and "list_all dateNow (timerClocks e)"
  shows "onGrid (then_ms (exec e s))"
proof (cases e)
  case (CallInit cv dpr rnd t0 now now2)
  then show ?thesis using assms(2) onGrid_init [of t0 now] by simp
next
  case (Refresh now now2)
  then show ?thesis
    using onGrid_fold_animate [of "s\<lparr>rafQueue := []\<rparr>" now now2 "rafQueue s"] assms
    by (simp add: refresh_def)
qed (use assms in \<open>simp_all add: setProgress_def\<close>)

lemma onGrid_fold_exec:
  "onGrid (then_ms s) \<Longrightarrow> wholeMsClocks steps \<Longrightarrow> onGrid (then_ms (fold exec steps s))"
proof (induction steps arbitrary: s)
  case Nil
  then show ?case by simp
next
  case (Cons e steps)
  have a: "list_all dateNow (timerClocks e)" "wholeMsClocks steps"
    using Cons.prems(2) by (simp_all add: wholeMsClocks_def)
  have "onGrid (then_ms (exec e s))"
    using Cons.prems(1) a(1) by (rule onGrid_exec)
  then show ?case using Cons.IH [OF _ a(2)] by simp
qed

lemma onGrid_run:
  "wholeMsClocks steps \<Longrightarrow> onGrid (then_ms (run (initial w h) steps))"
  unfolding run_def
  by (rule onGrid_fold_exec) (simp_all add: initial_def onGrid_def)

subsection \<open>The timer baseline advances by almost one interval per frame\<close>

lemma animate_timer:
  assumes "timerInv B s" and "0 \<le> now" and "now \<le> B" and "B \<le> 2 ^ 42"
  shows "timerInv B (animate now now2 s)" and "budget (animate now now2 s) \<le> budget s"
proof -
  have inv: "- 18 \<le> then_ms s" "then_ms s \<le> B + 1 / 1024"
    using assms(1) by (simp_all add: timerInv_def)
  have "\<bar>now - then_ms s\<bar> \<le> 2 ^ 43" using inv assms(2-4) by simp
  then have e1: "\<bar>elapsed now s - (now - then_ms s)\<bar> \<le> 1 / 1024"
    unfolding elapsed_def jsub_def by (rule to_double_err)
  have "timerInv B (animate now now2 s) \<and> budget (animate now now2 s) \<le> budget s"
  proof (cases "elapsed now s > fpsInterval")
    case True
    define r where "r = js_rem (elapsed now s) fpsInterval"
    have e: "0 \<le> elapsed now s" using True fpsInterval_pos by linarith
    have r: "0 \<le> r" "r < fpsInterval" "fpsInterval \<le> elapsed now s - r"
      using js_rem_pos(2,3) [OF fpsInterval_pos e] js_rem_step [OF fpsInterval_pos True]
      by (simp_all add: r_def)
    have "\<bar>now - r\<bar> \<le> 2 ^ 43"
      using r fpsInterval_bounds(2) assms(2-4) by simp
    then have e2: "\<bar>jsub now r - (now - r)\<bar> \<le> 1 / 1024"
      unfolding jsub_def by (rule to_double_err)
    have t: "then_ms (animate now now2 s) = jsub now r"
      using True by (simp add: animate_open r_def)
    have lo: "then_ms s + fpsInterval - 1 / 512 \<le> jsub now r"
      using e1 e2 r(3) by linarith
    have up: "jsub now r \<le> B + 1 / 1024"
      using e2 r(1) assms(3) by linarith
    have lw: "- 18 \<le> jsub now r"
      using e2 r(2) fpsInterval_bounds(2) assms(2) by linarith
    have d: "real (drawCalls (animate now now2 s)) \<le> real (drawCalls s) + 1"
      using True by (simp add: animate_drawCalls)
    have p: "0 < fpsInterval - 1 / 512" using fpsInterval_bounds(1) by linarith
    have "real (drawCalls (animate now now2 s)) * (fpsInterval - 1 / 512)
            \<le> (real (drawCalls s) + 1) * (fpsInterval - 1 / 512)"
      using d p by (simp only: mult_le_cancel_right_pos)
    also have "\<dots> = real (drawCalls s) * (fpsInterval - 1 / 512) + (fpsInterval - 1 / 512)"
      by (simp add: algebra_simps)
    finally have "budget (animate now now2 s) \<le> budget s"
      using lo unfolding budget_def t by linarith
    then show ?thesis using up lw by (simp add: timerInv_def t)
  next
    case False
    then show ?thesis using assms(1) by (simp add: animate_closed timerInv_def budget_def)
  qed
  then show "timerInv B (animate now now2 s)" and "budget (animate now now2 s) \<le> budget s"
    by simp_all
qed

lemma fold_animate_timer:
  assumes "timerInv B s" and "0 \<le> now" and "now \<le> B" and "B \<le> 2 ^ 42"
  shows "timerInv B (fold (\<lambda>i. animate now now2) q s)
       \<and> budget (fold (\<lambda>i. animate now now2) q s) \<le> budget s"
  using assms(1)
proof (induction q arbitrary: s)
  case Nil
  then show ?case by simp
next
  case (Cons i q)
  have a: "timerInv B (animate now now2 s)" "budget (animate now now2 s) \<le> budget s"
    using animate_timer [OF Cons.prems assms(2-4)] by simp_all
  show ?case using Cons.IH [OF a(1)] a(2) by simp
qed

lemma refresh_timer:
  assumes "timerInv B s" and "0 \<le> now" and "now \<le> B" and "B \<le> 2 ^ 42"
  shows "timerInv B (refresh now now2 s) \<and> budget (refresh now now2 s) \<le> budget s"
proof -
  have "timerInv B (s\<lparr>rafQueue := []\<rparr>)" using assms(1) by (simp add: timerInv_def)
  from fold_animate_timer [OF this assms(2-4), of now2 "rafQueue s"]
  show ?thesis by (simp add: refresh_def budget_def)
qed

lemma callbacks_timer:
  assumes "B \<le> 2 ^ 42"
  shows "timerInv B s \<Longrightarrow> \<forall>t\<in>set ts. 0 \<le> t \<and> t \<le> B \<Longrightarrow>
         timerInv B (callbacks ts s) \<and> budget (callbacks ts s) \<le> budget s"
proof (induction ts arbitrary: s)
  case Nil
  then show ?case by simp
next
  case (Cons t ts)
  have t: "0 \<le> t" "t \<le> B" using Cons.prems(2) by simp_all
  have a: "timerInv B (refresh t t s)" "budget (refresh t t s) \<le> budget s"
    using refresh_timer [OF Cons.prems(1) t assms] by simp_all
  have "timerInv B (callbacks ts (refresh t t s))
        \<and> budget (callbacks ts (refresh t t s)) \<le> budget (refresh t t s)"
    using Cons.IH [OF a(1)] Cons.prems(2) by simp
  then show ?case using a(2) by simp
qed

lemma callbacks_append: "callbacks (xs @ ys) s = callbacks ys (callbacks xs s)"
  by (simp add: callbacks_def run_def)

lemma between_endpoints:
  fixes a b f :: real
  assumes "0 \<le> f" and "f \<le> 1"
  shows "min a b \<le> a + (b - a) * f \<and> a + (b - a) * f \<le> max a b"
proof -
  define x where "x = (b - a) * f"
  show ?thesis
  proof (cases "a \<le> b")
    case True
    have "0 \<le> x" using True assms(1) by (simp add: x_def)
    moreover have "(b - a) * f \<le> (b - a) * 1"
      using True assms(2) by (intro mult_left_mono) simp_all
    then have "x \<le> b - a" by (simp add: x_def)
    ultimately show ?thesis unfolding x_def [symmetric] using True by linarith
  next
    case False
    have "x \<le> 0" using False assms(1) by (simp add: x_def mult_nonpos_nonneg)
    moreover have "(b - a) * 1 \<le> (b - a) * f"
      using False assms(2) by (intro mult_left_mono_neg) simp_all
    then have "b - a \<le> x" by (simp add: x_def)
    ultimately show ?thesis unfolding x_def [symmetric] using False by linarith
  qed
qed

section \<open>Lifecycle\<close>

text \<open>
  C1. After \<open>destroy()\<close> both input adapters registered by \<open>init\<close> should be gone. The
  code does not achieve this for the mouse-move adapter. Evaluated on a service
  initialised in a 1280 by 720 window and then destroyed: \<open>init\<close> registers the resize
  handler and a bound copy of \<open>onMouseMove\<close>; after \<open>destroy\<close> the resize handler is
  gone, the bound mouse-move handler is still registered, and a later mouse-move event
  at the right edge of the window still runs it and overwrites the mouse state.
\<close>

theorem destroy_keeps_mousemove_handler:
  "listeners (started 1280 720 1000)
     = [(''resize'', debouncedOnResize_fn), (''mousemove'', Bound onMouseMove_fn 1)]
   \<and> listeners (destroy (started 1280 720 1000)) = [(''mousemove'', Bound onMouseMove_fn 1)]
   \<and> mouseX (destroy (started 1280 720 1000)) = 0
   \<and> mouseX (exec (MouseMoved 1280 0 5000) (destroy (started 1280 720 1000))) = 1
   \<and> lastMouseMoveTime (exec (MouseMoved 1280 0 5000) (destroy (started 1280 720 1000))) = 5000"
  by (simp add: started_eq dispatch_def event_type_def destroy_def onMouseMove_def
      MOUSE_MOVE_THROTTLE_MS_def host_defs Let_def)

section \<open>Input adapters: resize\<close>

text \<open>
  C2, as amended. For every window width and height, when camera and renderer exist the
  resize handler sets the output size to \<open>min width 1920\<close> by \<open>min height 1080\<close>, so at
  most 1920 by 1080, and sets the camera aspect to the ratio of these two output
  dimensions. When the window is at most 1920 by 1080 the output size is the window
  size, so the window's aspect ratio is kept; a larger window is clamped on each axis
  separately.
\<close>

theorem onResize_clamps:
  assumes "camera s \<noteq> None" and "renderer s \<noteq> None"
  shows "outputSize (onResize s) = Some (min (innerWidth s) 1920, min (innerHeight s) 1080)
       \<and> min (innerWidth s) 1920 \<le> 1920 \<and> min (innerHeight s) 1080 \<le> 1080
       \<and> (innerHeight s \<noteq> 0 \<longrightarrow>
            cameraAspect (onResize s)
              = Some (min (innerWidth s) 1920 / min (innerHeight s) 1080))
       \<and> (innerWidth s \<le> 1920 \<and> innerHeight s \<le> 1080 \<longrightarrow>
            outputSize (onResize s) = Some (innerWidth s, innerHeight s))"
  using assms
  by (auto simp: onResize_def outputSize_def cameraAspect_def MAX_WIDTH_def MAX_HEIGHT_def
      Let_def)

theorem onResize_clamps_witness:
  "camera ((started 1280 720 0)\<lparr>innerWidth := 800, innerHeight := 600\<rparr>) \<noteq> None
   \<and> renderer ((started 1280 720 0)\<lparr>innerWidth := 800, innerHeight := 600\<rparr>) \<noteq> None
   \<and> (800 :: real) \<le> 1920 \<and> (600 :: real) \<le> 1080 \<and> (600 :: real) \<noteq> 0
   \<and> outputSize (onResize ((started 1280 720 0)\<lparr>innerWidth := 800, innerHeight := 600\<rparr>))
       = Some (800, 600)
   \<and> cameraAspect (onResize ((started 1280 720 0)\<lparr>innerWidth := 800, innerHeight := 600\<rparr>))
       = Some (4 / 3)"
proof -
  have c: "camera ((started 1280 720 0)\<lparr>innerWidth := 800, innerHeight := 600\<rparr>) \<noteq> None"
    by (simp add: started_eq)
  have r: "renderer ((started 1280 720 0)\<lparr>innerWidth := 800, innerHeight := 600\<rparr>) \<noteq> None"
    by (simp add: started_eq)
  show ?thesis
    using onResize_clamps [OF c r] c r by simp
qed

text \<open>
  The claim as stated fails for a window of 2560 by 1080: the output is 1920 by 1080 and
  the camera aspect is 16:9, while the window's aspect ratio is 64:27.
\<close>

theorem onResize_aspect_counterexample:
  "outputSize (onResize ((started 1280 720 0)\<lparr>innerWidth := 2560, innerHeight := 1080\<rparr>))
     = Some (1920, 1080)
   \<and> cameraAspect (onResize ((started 1280 720 0)\<lparr>innerWidth := 2560, innerHeight := 1080\<rparr>))
     = Some (1920 / 1080)
   \<and> \<bar>(1920 / 1080 :: real) - 2560 / 1080\<bar> > 1 / 2"
  by (simp add: started_eq onResize_def outputSize_def cameraAspect_def MAX_WIDTH_def
      MAX_HEIGHT_def Let_def)

section \<open>Frame scheduler\<close>

text \<open>
  C4. Take any state the service reaches from its initial state when every reading of
  \<open>Date.now()\<close> is a whole number of milliseconds (at least 64 ms after the epoch), and
  a scheduler callback at such a reading, with \<open>elapsed = now - then\<close> as the code
  computes it and the interval \<open>1000 / 60\<close>. The next callback is requested first, in
  every case. If \<open>elapsed\<close> is less than the interval, nothing else changes: the
  frame's work is skipped. Otherwise \<open>then\<close> becomes \<open>now - (elapsed mod interval)\<close>, and
  with scene, camera, renderer and mesh present the work is performed: one draw call,
  and the mesh's vertical rotation grows by the new rotation speed. The code's test is
  \<open>elapsed > interval\<close>; the two tests agree because \<open>elapsed\<close> is never equal to the
  interval.
\<close>

theorem animate_gate:
  assumes "s = run (initial w h) steps" and "wholeMsClocks steps" and "dateNow now"
  shows "rafQueue (animate now now2 s) = rafQueue s @ [animationFrameId (animate now now2 s)]
   \<and> animationFrameId (animate now now2 s) = nextHandle s
   \<and> elapsed now s = to_double (now - then_ms s)
   \<and> (elapsed now s < fpsInterval \<longrightarrow>
        animate now now2 s = s\<lparr>rafQueue := rafQueue s @ [nextHandle s],
                               nextHandle := nextHandle s + 1,
                               animationFrameId := nextHandle s\<rparr>)
   \<and> (\<not> elapsed now s < fpsInterval \<longrightarrow>
        then_ms (animate now now2 s)
          = to_double (now - js_rem (elapsed now s) fpsInterval)
        \<and> js_rem (elapsed now s) fpsInterval
            = elapsed now s - fpsInterval * of_int \<lfloor>elapsed now s / fpsInterval\<rfloor>
        \<and> (ready s \<longrightarrow> drawCalls (animate now now2 s) = drawCalls s + 1
              \<and> meshRotationY (animate now now2 s)
                   = meshRotationY s + currentRotationSpeed (animate now now2 s)))"
proof -
  have g: "onGrid (then_ms s)"
    unfolding assms(1) using assms(2) by (rule onGrid_run)
  have w: "of_int \<lfloor>now\<rfloor> = now" using assms(3) by (simp add: dateNow_def)
  have ne: "elapsed now s \<noteq> fpsInterval"
    using g w by (rule elapsed_neq_interval)
  have q: "rafQueue (animate now now2 s) = rafQueue s @ [animationFrameId (animate now now2 s)]"
    "animationFrameId (animate now now2 s) = nextHandle s"
    by (cases "elapsed now s > fpsInterval"; simp add: animate_open animate_closed)+
  have e: "elapsed now s = to_double (now - then_ms s)"
    by (simp add: elapsed_def jsub_def)
  show ?thesis
  proof (cases "elapsed now s > fpsInterval")
    case True
    have pos: "0 \<le> elapsed now s" using True fpsInterval_pos by linarith
    have m: "ready s \<Longrightarrow> meshRotationY (animate now now2 s)
                   = meshRotationY s + currentRotationSpeed (animate now now2 s)"
      using True by (simp add: meshRotationY_animate)
    have d: "ready s \<Longrightarrow> drawCalls (animate now now2 s) = drawCalls s + 1"
      using True by (simp add: animate_drawCalls)
    have t: "then_ms (animate now now2 s)
          = to_double (now - js_rem (elapsed now s) fpsInterval)"
      using True by (simp add: animate_then_ms jsub_def)
    show ?thesis
      using True js_rem_pos(1) [OF fpsInterval_pos pos] m d t q e by simp
  next
    case False
    then have "elapsed now s < fpsInterval" using ne by simp
    then show ?thesis using False q e by (simp add: animate_closed)
  qed
qed

theorem animate_gate_witness:
  "wholeMsClocks [CallInit \<lparr>cv_width = 300, cv_height = 150\<rparr> 1 (\<lambda>k. 0) 1000 1000 1000]
   \<and> dateNow 1017
   \<and> \<not> elapsed 1017 (run (initial 1280 720)
         [CallInit \<lparr>cv_width = 300, cv_height = 150\<rparr> 1 (\<lambda>k. 0) 1000 1000 1000]) < fpsInterval
   \<and> ready (run (initial 1280 720)
         [CallInit \<lparr>cv_width = 300, cv_height = 150\<rparr> 1 (\<lambda>k. 0) 1000 1000 1000])
   \<and> then_ms (animate 1017 1017 (run (initial 1280 720)
         [CallInit \<lparr>cv_width = 300, cv_height = 150\<rparr> 1 (\<lambda>k. 0) 1000 1000 1000]))
       = 8942694572578133 / 8796093022208
   \<and> drawCalls (animate 1017 1017 (run (initial 1280 720)
         [CallInit \<lparr>cv_width = 300, cv_height = 150\<rparr> 1 (\<lambda>k. 0) 1000 1000 1000])) = 1
   \<and> dateNow 1016
   \<and> elapsed 1016 (run (initial 1280 720)
         [CallInit \<lparr>cv_width = 300, cv_height = 150\<rparr> 1 (\<lambda>k. 0) 1000 1000 1000]) < fpsInterval
   \<and> then_ms (animate 1016 1016 (run (initial 1280 720)
         [CallInit \<lparr>cv_width = 300, cv_height = 150\<rparr> 1 (\<lambda>k. 0) 1000 1000 1000])) = 1000
   \<and> rafQueue (animate 1016 1016 (run (initial 1280 720)
         [CallInit \<lparr>cv_width = 300, cv_height = 150\<rparr> 1 (\<lambda>k. 0) 1000 1000 1000])) = [2, 3]"
proof -
  define steps where
    "steps = [CallInit \<lparr>cv_width = 300, cv_height = 150\<rparr> 1 (\<lambda>k. 0) 1000 1000 1000]"
  define s where "s = run (initial 1280 720) steps"
  have c: "wholeMsClocks steps" "dateNow 1017" "dateNow 1016"
    by (simp_all add: steps_def wholeMsClocks_def dateNow_def)
  have st: "s = started 1280 720 1000"
    by (simp add: s_def steps_def run_def started_def)
  have h: "ready s" "then_ms s = 1000" "drawCalls s = 0" "rafQueue s = [2]"
    "nextHandle s = 3"
    by (simp_all add: st started_eq ready_def drawCalls_def)
  have e: "elapsed 1017 s = 17" "elapsed 1016 s = 16"
    by (simp_all add: elapsed_def h double_eval)
  have i: "\<not> (17 :: real) < fpsInterval" "(16 :: real) < fpsInterval"
    by (simp_all add: fpsInterval_eq)
  have r: "to_double (1017 - js_rem 17 fpsInterval) = 8942694572578133 / 8796093022208"
    by (simp add: fpsInterval_eq js_rem_def js_trunc_def double_eval)
  have a: "then_ms (animate 1017 1017 s) = 8942694572578133 / 8796093022208
     \<and> drawCalls (animate 1017 1017 s) = 1"
    using animate_gate [OF s_def c(1) c(2), of 1017] i(1) r by (simp add: e h)
  have "animate 1016 1016 s = s\<lparr>rafQueue := [2, 3], nextHandle := 4, animationFrameId := 3\<rparr>"
    using animate_gate [OF s_def c(1) c(3), of 1016] i(2) by (simp add: e h)
  then have b: "then_ms (animate 1016 1016 s) = 1000
     \<and> rafQueue (animate 1016 1016 s) = [2, 3]"
    using h by simp
  show ?thesis
    using a b c h(1) i unfolding e [symmetric] unfolding s_def steps_def by simp
qed

text \<open>
  C5, as amended. Count time from the timer baseline \<open>then\<close>, which \<open>init\<close> sets when the
  loop starts, and let display refreshes arrive at any clock readings from the epoch up
  to \<open>T\<close> milliseconds after the baseline, all before \<open>2 ^ 42\<close> ms. Every execution of
  the frame's work moves the baseline forward by one interval, up to rounding, so the
  number of executions times \<open>interval - 1 / 512\<close> is at most \<open>T + 1 / 1024\<close>: at most 6
  executions within 100 ms of the baseline, whatever the cadence of the callbacks (one
  every 8 ms included), and at most 60 within a second.
\<close>

theorem frame_rate_cap:
  assumes "\<forall>t\<in>set ts. 0 \<le> t \<and> t \<le> then_ms s + T"
    and "0 \<le> then_ms s" and "0 \<le> T" and "then_ms s + T \<le> 2 ^ 42"
  shows "(real (drawCalls (callbacks ts s)) - real (drawCalls s)) * (fpsInterval - 1 / 512)
           \<le> T + 1 / 1024
       \<and> (T \<le> 100 \<longrightarrow> drawCalls (callbacks ts s) \<le> drawCalls s + 6)
       \<and> (T \<le> 1000 \<longrightarrow> drawCalls (callbacks ts s) \<le> drawCalls s + 60)"
proof -
  define B where "B = then_ms s + T"
  define K where "K = fpsInterval - 1 / 512"
  define c where "c = real (drawCalls (callbacks ts s)) - real (drawCalls s)"
  have inv: "timerInv B s" using assms(2,3) by (simp add: timerInv_def B_def)
  have ts: "\<forall>t\<in>set ts. 0 \<le> t \<and> t \<le> B" using assms(1) by (simp add: B_def)
  have B: "B \<le> 2 ^ 42" using assms(4) by (simp add: B_def)
  from callbacks_timer [OF B inv ts]
  have f: "then_ms (callbacks ts s) \<le> B + 1 / 1024" "budget (callbacks ts s) \<le> budget s"
    by (simp_all add: timerInv_def)
  have "real (drawCalls (callbacks ts s)) * K - real (drawCalls s) * K
        \<le> then_ms (callbacks ts s) - then_ms s"
    using f(2) unfolding budget_def K_def by linarith
  moreover have "c * K = real (drawCalls (callbacks ts s)) * K - real (drawCalls s) * K"
    unfolding c_def by (rule left_diff_distrib)
  ultimately have m: "c * K \<le> T + 1 / 1024"
    using f(1) unfolding B_def by linarith
  have k: "33 / 2 < K" by (simp add: K_def fpsInterval_eq)
  have c1: "c < 7" if "T \<le> 100"
  proof (rule ccontr)
    assume "\<not> c < 7"
    then have "7 * K \<le> c * K"
      using k by (intro mult_right_mono) simp_all
    then show False using m k that by linarith
  qed
  have c2: "c < 61" if "T \<le> 1000"
  proof (rule ccontr)
    assume "\<not> c < 61"
    then have "61 * K \<le> c * K"
      using k by (intro mult_right_mono) simp_all
    then show False using m k that by linarith
  qed
  have d1: "T \<le> 100 \<Longrightarrow> drawCalls (callbacks ts s) \<le> drawCalls s + 6"
    using c1 by (simp add: c_def)
  have d2: "T \<le> 1000 \<Longrightarrow> drawCalls (callbacks ts s) \<le> drawCalls s + 60"
    using c2 by (simp add: c_def)
  show ?thesis using m d1 d2 unfolding c_def K_def by blast
qed

theorem frame_rate_cap_witness:
  "list_all (\<lambda>t. 0 \<le> t \<and> t \<le> then_ms (started 1280 720 1000) + 100)
     [1008, 1016, 1024, 1032, 1040, 1048, 1056, 1064, 1072, 1080, 1088, 1096]
   \<and> 0 \<le> then_ms (started 1280 720 1000) \<and> (0 :: real) \<le> 100
   \<and> then_ms (started 1280 720 1000) + 100 \<le> 2 ^ 42
   \<and> (100 :: real) \<le> 1000
   \<and> drawCalls (callbacks [1008, 1016, 1024, 1032, 1040, 1048, 1056, 1064, 1072, 1080, 1088, 1096]
         (started 1280 720 1000))
       \<le> drawCalls (started 1280 720 1000) + 6"
proof -
  have h: "then_ms (started 1280 720 1000) = 1000"
    by (simp add: started_eq)
  have l: "list_all (\<lambda>t. 0 \<le> t \<and> t \<le> then_ms (started 1280 720 1000) + 100)
     [1008, 1016, 1024, 1032, 1040, 1048, 1056, 1064, 1072, 1080, 1088, 1096]"
    by (simp add: h)
  then have a: "\<forall>t\<in>set [1008, 1016, 1024, 1032, 1040, 1048, 1056, 1064, 1072, 1080, 1088, 1096].
      0 \<le> t \<and> t \<le> then_ms (started 1280 720 1000) + 100"
    by (simp only: list_all_iff)
  have b: "0 \<le> then_ms (started 1280 720 1000)" "(0 :: real) \<le> 100"
    "then_ms (started 1280 720 1000) + 100 \<le> 2 ^ 42"
    by (simp_all add: h)
  show ?thesis
    using frame_rate_cap [OF a b] l b by simp
qed

text \<open>
  The claim as stated fails for a window that does not start at the baseline. A service
  started at clock reading 1000 and called back every 8 ms skips the callbacks at 1008
  and 1016; the thirteen callbacks from 1024 to 1120, which span 96 ms, then execute
  the frame's work 7 times.
\<close>

theorem frame_rate_window_counterexample:
  "drawCalls (callbacks [1008, 1016] (started 1280 720 1000)) = 0
   \<and> drawCalls
        (callbacks [1024, 1032, 1040, 1048, 1056, 1064, 1072, 1080, 1088, 1096, 1104, 1112, 1120]
          (callbacks [1008, 1016] (started 1280 720 1000))) = 7
   \<and> (1120 :: real) - 1024 \<le> 100"
proof -
  have h: "ready (started 1280 720 1000)" "rafQueue (started 1280 720 1000) = [2]"
    "then_ms (started 1280 720 1000) = 1000" "drawCalls (started 1280 720 1000) = 0"
    by (simp_all add: started_eq ready_def drawCalls_def)
  have a: "(then_ms (callbacks [1008, 1016] (started 1280 720 1000)),
            drawCalls (callbacks [1008, 1016] (started 1280 720 1000))) = (1000, 0)"
    unfolding callbacks_trace [OF h(1,2)] h(3,4)
    by (simp add: fpsInterval_eq js_rem_def js_trunc_def double_eval)
  have "callbacks [1024, 1032, 1040, 1048, 1056, 1064, 1072, 1080, 1088, 1096, 1104, 1112, 1120]
          (callbacks [1008, 1016] (started 1280 720 1000))
        = callbacks ([1008, 1016] @
            [1024, 1032, 1040, 1048, 1056, 1064, 1072, 1080, 1088, 1096, 1104, 1112, 1120])
            (started 1280 720 1000)"
    by (simp only: callbacks_append)
  moreover have "snd (then_ms (callbacks ([1008, 1016] @
            [1024, 1032, 1040, 1048, 1056, 1064, 1072, 1080, 1088, 1096, 1104, 1112, 1120])
            (started 1280 720 1000)),
          drawCalls (callbacks ([1008, 1016] @
            [1024, 1032, 1040, 1048, 1056, 1064, 1072, 1080, 1088, 1096, 1104, 1112, 1120])
            (started 1280 720 1000))) = 7"
    unfolding callbacks_trace [OF h(1,2)] h(3,4)
    by (simp add: fpsInterval_eq js_rem_def js_trunc_def double_eval)
  ultimately show ?thesis using a by simp
qed

text \<open>
  Started at clock reading 1000 and called back every 8 ms until 1096, the service
  executes the frame's work exactly 5 times. On whole-millisecond readings the rounding
  decides whole frames: called back at 1017, 1034 and 1050 it executes the work three
  times, the third time because the rounded baseline makes the elapsed time exceed the
  interval by a few units in the last place; started at 0 and called back at 50, the
  baseline becomes twice the interval, and a callback one millisecond later executes
  the work again.
\<close>

lemma eight_ms_count:
  "drawCalls (callbacks [1008, 1016, 1024, 1032, 1040, 1048, 1056, 1064, 1072, 1080, 1088, 1096]
     (started 1280 720 1000)) = 5"
proof -
  have h: "ready (started 1280 720 1000)" "rafQueue (started 1280 720 1000) = [2]"
    "then_ms (started 1280 720 1000) = 1000" "drawCalls (started 1280 720 1000) = 0"
    by (simp_all add: started_eq ready_def drawCalls_def)
  have "snd (then_ms (callbacks
           [1008, 1016, 1024, 1032, 1040, 1048, 1056, 1064, 1072, 1080, 1088, 1096]
           (started 1280 720 1000)),
         drawCalls (callbacks
           [1008, 1016, 1024, 1032, 1040, 1048, 1056, 1064, 1072, 1080, 1088, 1096]
           (started 1280 720 1000))) = 5"
    unfolding callbacks_trace [OF h(1,2)] h(3,4)
    by (simp add: fpsInterval_eq js_rem_def js_trunc_def double_eval)
  then show ?thesis by simp
qed

lemma whole_ms_rounding:
  "drawCalls (callbacks [1017, 1034, 1050] (started 1280 720 1000)) = 3
   \<and> then_ms (callbacks [50] (started 1280 720 0)) = 2 * fpsInterval
   \<and> drawCalls (callbacks [50, 51] (started 1280 720 0)) = 2"
proof -
  have h: "ready (started 1280 720 t)" "rafQueue (started 1280 720 t) = [2]"
    "then_ms (started 1280 720 t) = t" "drawCalls (started 1280 720 t) = 0" for t
    by (simp_all add: started_eq ready_def drawCalls_def)
  have a: "snd (then_ms (callbacks [1017, 1034, 1050] (started 1280 720 1000)),
            drawCalls (callbacks [1017, 1034, 1050] (started 1280 720 1000))) = 3"
    unfolding callbacks_trace [OF h(1,2)] h(3,4)
    by (simp add: fpsInterval_eq js_rem_def js_trunc_def double_eval)
  have b: "(then_ms (callbacks [50] (started 1280 720 0)),
            drawCalls (callbacks [50] (started 1280 720 0)))
           = (4691249611844267 / 140737488355328, 1)"
    unfolding callbacks_trace [OF h(1,2)] h(3,4)
    by (simp add: fpsInterval_eq js_rem_def js_trunc_def double_eval)
  have c: "snd (then_ms (callbacks [50, 51] (started 1280 720 0)),
            drawCalls (callbacks [50, 51] (started 1280 720 0))) = 2"
    unfolding callbacks_trace [OF h(1,2)] h(3,4)
    by (simp add: fpsInterval_eq js_rem_def js_trunc_def double_eval)
  show ?thesis using a b c by (simp add: fpsInterval_eq)
qed

section \<open>Progress and target speed\<close>

text \<open>
  C3. \<open>setProgress p\<close> stores \<open>p\<close> unchanged, whatever its value. The frame update that
  follows computes the processing state as exactly \<open>0 < p < 100\<close>: progress 0 and 100
  give the idle target speed 0.001, progress 50 gives the processing target speed 0.05,
  a value outside \<open>[0, 100]\<close> gives the idle target speed, and when the gate opens with
  all handles present the rotation speed moves toward that target.
\<close>

theorem setProgress_routes_speed:
  "isProcessing (setProgress p s) = (0 < p \<and> p < 100)
   \<and> targetSpeed (setProgress p s) = (if 0 < p \<and> p < 100 then 0.05 else 0.001)
   \<and> targetSpeed (setProgress 0 s) = 0.001
   \<and> targetSpeed (setProgress 100 s) = 0.001
   \<and> targetSpeed (setProgress 50 s) = 0.05
   \<and> progress (setProgress p s) = p
   \<and> (p < 0 \<or> 100 < p \<longrightarrow> targetSpeed (setProgress p s) = 0.001)
   \<and> (ready s \<and> elapsed now s > fpsInterval \<longrightarrow>
        currentRotationSpeed (animate now now2 (setProgress p s))
          = currentRotationSpeed s
            + ((if 0 < p \<and> p < 100 then 0.05 else 0.001) - currentRotationSpeed s) * 0.05)"
proof -
  have a: "isProcessing (setProgress p s) = (0 < p \<and> p < 100)" for p
    by (simp add: setProgress_def isProcessing_def)
  have t: "targetSpeed (setProgress p s) = (if 0 < p \<and> p < 100 then 0.05 else 0.001)" for p
    by (simp add: targetSpeed_def a)
  have r: "ready (setProgress p s) = ready s" "elapsed now (setProgress p s) = elapsed now s"
    "currentRotationSpeed (setProgress p s) = currentRotationSpeed s"
    by (simp_all add: setProgress_def ready_def elapsed_def)
  have f: "ready s \<and> elapsed now s > fpsInterval \<longrightarrow>
        currentRotationSpeed (animate now now2 (setProgress p s))
          = currentRotationSpeed s
            + ((if 0 < p \<and> p < 100 then 0.05 else 0.001) - currentRotationSpeed s) * 0.05"
    using animate_open_speed [of "setProgress p s" now now2] by (simp add: r t)
  show ?thesis using a t f by (simp add: setProgress_def)
qed

theorem setProgress_routes_speed_witness:
  "ready (started 1280 720 0) \<and> elapsed 20 (started 1280 720 0) > fpsInterval
   \<and> currentRotationSpeed (animate 20 20 (setProgress 50 (started 1280 720 0))) = 0.00345
   \<and> ((250 :: real) < 0 \<or> (100 :: real) < 250)
   \<and> targetSpeed (setProgress 250 (started 1280 720 0)) = 0.001"
proof -
  have h1: "ready (started 1280 720 0)"
    by (simp add: started_eq ready_def)
  have h2: "elapsed 20 (started 1280 720 0) > fpsInterval"
    by (simp add: started_eq elapsed_def fpsInterval_eq double_eval)
  have h3: "currentRotationSpeed (started 1280 720 0) = 1 / 1000"
    by (simp add: started_eq)
  have "currentRotationSpeed (animate 20 20 (setProgress 50 (started 1280 720 0)))
          = currentRotationSpeed (started 1280 720 0)
            + (0.05 - currentRotationSpeed (started 1280 720 0)) * 0.05"
    using setProgress_routes_speed [of 50 "started 1280 720 0" 20 20] h1 h2 by simp
  then have a: "currentRotationSpeed (animate 20 20 (setProgress 50 (started 1280 720 0))) = 0.00345"
    unfolding h3 by simp
  have b: "targetSpeed (setProgress 250 (started 1280 720 0)) = 0.001"
    using setProgress_routes_speed [of 250 "started 1280 720 0" 20 20] by simp
  show ?thesis using h1 h2 a b by simp
qed

section \<open>Point cloud\<close>

text \<open>
  C6. For every particle index \<open>i\<close> with \<open>i\<close> and \<open>i + 3\<close> both below the particle count,
  the branch angle the generator assigns to particle \<open>i\<close> equals the one it assigns to
  particle \<open>i + 3\<close>, and it is \<open>(i mod 3) * (2 pi / 3)\<close>.
\<close>

theorem branchAngle_period_3:
  "i < particleCount \<Longrightarrow> i + 3 < particleCount \<Longrightarrow>
   p_branchAngle (galaxyParticles rnd ! i) = p_branchAngle (galaxyParticles rnd ! (i + 3))
   \<and> p_branchAngle (galaxyParticles rnd ! i) = real (i mod 3) * (2 * pi / 3)
   \<and> branchAngle i = branchAngle (i + 3)"
  by (simp add: galaxyParticles_def particleAt_def branchAngle_def Let_def)

theorem branchAngle_period_3_witness:
  "(4 :: nat) < particleCount \<and> 4 + 3 < particleCount
   \<and> p_branchAngle (galaxyParticles (\<lambda>k. 0) ! 4) = p_branchAngle (galaxyParticles (\<lambda>k. 0) ! (4 + 3))
   \<and> p_branchAngle (galaxyParticles (\<lambda>k. 0) ! 4) = 2 * pi / 3"
  using branchAngle_period_3 [of 4 "\<lambda>k. 0"] by (simp add: particleCount_def)

text \<open>
  C7. When every draw of the random source lies in \<open>[0, 1)\<close>, every generated particle has
  a radius in \<open>[0, 200]\<close> and a size in \<open>[0, 2]\<close>. Its colour is the linear
  interpolation from the inner colour to the outer colour by the factor radius / 200:
  each channel is the inner channel plus the factor times the difference of the outer
  and the inner channel. The factor lies in \<open>[0, 1]\<close>, so each channel lies between the
  inner and the outer one.
\<close>

theorem particle_bounds:
  assumes "\<forall>k. 0 \<le> rnd k \<and> rnd k < 1" and "i < particleCount"
  defines "p \<equiv> galaxyParticles rnd ! i"
  defines "f \<equiv> p_radius p / 200"
  shows "0 \<le> p_radius p \<and> p_radius p \<le> 200
       \<and> 0 \<le> p_size p \<and> p_size p \<le> 2
       \<and> 0 \<le> f \<and> f \<le> 1
       \<and> col_r (p_color p) = col_r colorInside + (col_r colorOutside - col_r colorInside) * f
       \<and> col_g (p_color p) = col_g colorInside + (col_g colorOutside - col_g colorInside) * f
       \<and> col_b (p_color p) = col_b colorInside + (col_b colorOutside - col_b colorInside) * f
       \<and> min (col_r colorInside) (col_r colorOutside) \<le> col_r (p_color p)
       \<and> col_r (p_color p) \<le> max (col_r colorInside) (col_r colorOutside)
       \<and> min (col_g colorInside) (col_g colorOutside) \<le> col_g (p_color p)
       \<and> col_g (p_color p) \<le> max (col_g colorInside) (col_g colorOutside)
       \<and> min (col_b colorInside) (col_b colorOutside) \<le> col_b (p_color p)
       \<and> col_b (p_color p) \<le> max (col_b colorInside) (col_b colorOutside)"
proof -
  have p: "p = particleAt rnd i"
    using assms(2) by (simp add: p_def galaxyParticles_nth)
  have r: "0 \<le> rnd (9 * i)" "rnd (9 * i) < 1" "0 \<le> rnd (9 * i + 8)" "rnd (9 * i + 8) < 1"
    using assms(1) by auto
  have loc: "0 \<le> p_radius p \<and> p_radius p \<le> 200 \<and> 0 \<le> p_size p \<and> p_size p \<le> 2"
    unfolding p using r by (simp add: particleAt_def Let_def)
  have f: "0 \<le> f" "f \<le> 1" using loc by (simp_all add: f_def)
  have c: "p_color p = lerp colorInside colorOutside f"
    unfolding p f_def by (simp add: particleAt_def Let_def)
  have ch: "col_r (p_color p) = col_r colorInside + (col_r colorOutside - col_r colorInside) * f"
    "col_g (p_color p) = col_g colorInside + (col_g colorOutside - col_g colorInside) * f"
    "col_b (p_color p) = col_b colorInside + (col_b colorOutside - col_b colorInside) * f"
    unfolding c by (simp_all add: lerp_def)
  have bw: "min a b \<le> a + (b - a) * f \<and> a + (b - a) * f \<le> max a b" for a b :: real
    using f by (rule between_endpoints)
  show ?thesis
    using loc f ch bw [of "col_r colorInside" "col_r colorOutside"]
      bw [of "col_g colorInside" "col_g colorOutside"]
      bw [of "col_b colorInside" "col_b colorOutside"]
    by simp
qed

theorem particle_bounds_witness:
  "(\<forall>k. 0 \<le> (\<lambda>k. 1 / 2 :: real) k \<and> (\<lambda>k. 1 / 2 :: real) k < 1) \<and> 7 < particleCount
   \<and> p_radius (galaxyParticles (\<lambda>k. 1 / 2) ! 7) = 100
   \<and> p_size (galaxyParticles (\<lambda>k. 1 / 2) ! 7) = 1
   \<and> p_radius (galaxyParticles (\<lambda>k. 1 / 2) ! 7) \<le> 200
   \<and> col_r (p_color (galaxyParticles (\<lambda>k. 1 / 2) ! 7)) = 1
   \<and> col_g (p_color (galaxyParticles (\<lambda>k. 1 / 2) ! 7)) = 223 / 255
   \<and> col_b (p_color (galaxyParticles (\<lambda>k. 1 / 2) ! 7)) = 1 / 2"
proof -
  have h1: "\<forall>k. 0 \<le> (\<lambda>k. 1 / 2 :: real) k \<and> (\<lambda>k. 1 / 2 :: real) k < 1" by simp
  have h2: "7 < particleCount" by (simp add: particleCount_def)
  have v: "p_radius (galaxyParticles (\<lambda>k. 1 / 2) ! 7) = 100"
    "p_size (galaxyParticles (\<lambda>k. 1 / 2) ! 7) = 1"
    using h2 by (simp_all add: galaxyParticles_nth particleAt_def Let_def)
  have k: "colorInside = \<lparr>col_r = 1, col_g = 191 / 255, col_b = 0\<rparr>"
    "colorOutside = \<lparr>col_r = 1, col_g = 1, col_b = 1\<rparr>"
    by (simp_all add: colorInside_def colorOutside_def Color_def)
  show ?thesis
    using particle_bounds [OF h1 h2] h1 h2 unfolding v k by simp
qed

section \<open>Input adapters: mouse move\<close>

text \<open>
  C8. A mouse-move event changes the stored state if and only if at least 16 ms have
  passed since the last accepted update. An accepted event stores
  \<open>mouseX = (clientX / innerWidth) * 2 - 1\<close>, \<open>mouseY = - (clientY / innerHeight) * 2 + 1\<close>
  and the time of the event. After an accepted event, a second event 5 ms later
  changes nothing (one update in all), and a second event 20 ms later is accepted (two
  updates). For a position inside a window of positive size both coordinates lie in
  \<open>[-1, 1]\<close>, and Y is inverted: the top edge gives 1, the bottom edge gives -1.
\<close>

theorem onMouseMove_throttle:
  fixes s :: world and cx cy now cx2 cy2 :: real
  defines "s1 \<equiv> onMouseMove cx cy now s"
  shows "(s1 \<noteq> s) = (16 \<le> now - lastMouseMoveTime s)
   \<and> (16 \<le> now - lastMouseMoveTime s \<and> innerWidth s \<noteq> 0 \<and> innerHeight s \<noteq> 0 \<longrightarrow>
        mouseX s1 = (cx / innerWidth s) * 2 - 1
        \<and> mouseY s1 = - (cy / innerHeight s) * 2 + 1
        \<and> lastMouseMoveTime s1 = now)
   \<and> (16 \<le> now - lastMouseMoveTime s \<longrightarrow>
        onMouseMove cx2 cy2 (now + 5) s1 = s1
        \<and> onMouseMove cx2 cy2 (now + 20) s1 \<noteq> s1)
   \<and> (16 \<le> now - lastMouseMoveTime s \<and> 0 < innerWidth s \<and> 0 < innerHeight s
        \<and> 0 \<le> cx \<and> cx \<le> innerWidth s \<and> 0 \<le> cy \<and> cy \<le> innerHeight s \<longrightarrow>
        - 1 \<le> mouseX s1 \<and> mouseX s1 \<le> 1 \<and> - 1 \<le> mouseY s1 \<and> mouseY s1 \<le> 1
        \<and> (cy = 0 \<longrightarrow> mouseY s1 = 1) \<and> (cy = innerHeight s \<longrightarrow> mouseY s1 = - 1))"
proof -
  have a: "(s1 \<noteq> s) = (16 \<le> now - lastMouseMoveTime s)"
  proof (cases "now - lastMouseMoveTime s < 16")
    case True
    then show ?thesis by (simp add: s1_def onMouseMove_def MOUSE_MOVE_THROTTLE_MS_def)
  next
    case False
    then have "lastMouseMoveTime s1 = now" 
      by (simp add: s1_def onMouseMove_def MOUSE_MOVE_THROTTLE_MS_def)
    moreover have "lastMouseMoveTime s \<noteq> now" using False by auto
    ultimately have "s1 \<noteq> s" by auto
    then show ?thesis using False by simp
  qed
  have b: "16 \<le> now - lastMouseMoveTime s \<Longrightarrow>
        mouseX s1 = (cx / innerWidth s) * 2 - 1
        \<and> mouseY s1 = - (cy / innerHeight s) * 2 + 1
        \<and> lastMouseMoveTime s1 = now"
    by (simp add: s1_def onMouseMove_def MOUSE_MOVE_THROTTLE_MS_def)
  have c: "16 \<le> now - lastMouseMoveTime s \<Longrightarrow> onMouseMove cx2 cy2 (now + 5) s1 = s1"
    using b by (simp add: onMouseMove_def [of cx2 cy2 "now + 5" s1] MOUSE_MOVE_THROTTLE_MS_def)
  have d: "16 \<le> now - lastMouseMoveTime s \<Longrightarrow> onMouseMove cx2 cy2 (now + 20) s1 \<noteq> s1"
  proof -
    assume "16 \<le> now - lastMouseMoveTime s"
    then have "lastMouseMoveTime s1 = now" using b by simp
    then have "lastMouseMoveTime (onMouseMove cx2 cy2 (now + 20) s1) = now + 20"
      by (simp add: onMouseMove_def [of cx2 cy2 "now + 20" s1] MOUSE_MOVE_THROTTLE_MS_def)
    then show ?thesis using \<open>lastMouseMoveTime s1 = now\<close> by auto
  qed
  have e: "16 \<le> now - lastMouseMoveTime s \<Longrightarrow> 0 < innerWidth s \<Longrightarrow> 0 < innerHeight s
        \<Longrightarrow> 0 \<le> cx \<Longrightarrow> cx \<le> innerWidth s \<Longrightarrow> 0 \<le> cy \<Longrightarrow> cy \<le> innerHeight s \<Longrightarrow>
        - 1 \<le> mouseX s1 \<and> mouseX s1 \<le> 1 \<and> - 1 \<le> mouseY s1 \<and> mouseY s1 \<le> 1
        \<and> (cy = 0 \<longrightarrow> mouseY s1 = 1) \<and> (cy = innerHeight s \<longrightarrow> mouseY s1 = - 1)"
  proof -
    assume h: "16 \<le> now - lastMouseMoveTime s" "0 < innerWidth s" "0 < innerHeight s"
      "0 \<le> cx" "cx \<le> innerWidth s" "0 \<le> cy" "cy \<le> innerHeight s"
    define u where "u = cx / innerWidth s"
    define v where "v = cy / innerHeight s"
    have x: "0 \<le> u" "u \<le> 1" using h by (simp_all add: u_def)
    have y: "0 \<le> v" "v \<le> 1" using h by (simp_all add: v_def)
    have m: "mouseX s1 = u * 2 - 1" "mouseY s1 = - v * 2 + 1"
      using b [OF h(1)] by (simp_all add: u_def v_def)
    have t: "cy = 0 \<Longrightarrow> v = 0" "cy = innerHeight s \<Longrightarrow> v = 1"
      using h(3) by (simp_all add: v_def)
    have r: "- 1 \<le> mouseX s1 \<and> mouseX s1 \<le> 1 \<and> - 1 \<le> mouseY s1 \<and> mouseY s1 \<le> 1"
      unfolding m using x y by linarith
    have i: "(cy = 0 \<longrightarrow> mouseY s1 = 1) \<and> (cy = innerHeight s \<longrightarrow> mouseY s1 = - 1)"
      unfolding m using t by auto
    show ?thesis using r i by blast
  qed
  show ?thesis using a b c d e by blast
qed

theorem onMouseMove_throttle_witness:
  "16 \<le> 1000 - lastMouseMoveTime (started 1280 720 0)
   \<and> innerWidth (started 1280 720 0) \<noteq> 0 \<and> innerHeight (started 1280 720 0) \<noteq> 0
   \<and> (0::real) \<le> 960 \<and> 960 \<le> innerWidth (started 1280 720 0)
   \<and> (0::real) \<le> 180 \<and> 180 \<le> innerHeight (started 1280 720 0)
   \<and> mouseX (onMouseMove 960 180 1000 (started 1280 720 0)) = 1 / 2
   \<and> mouseY (onMouseMove 960 180 1000 (started 1280 720 0)) = 1 / 2
   \<and> onMouseMove 0 0 (1000 + 5) (onMouseMove 960 180 1000 (started 1280 720 0))
       = onMouseMove 960 180 1000 (started 1280 720 0)
   \<and> onMouseMove 0 0 (1000 + 20) (onMouseMove 960 180 1000 (started 1280 720 0))
       \<noteq> onMouseMove 960 180 1000 (started 1280 720 0)"
proof -
  have h: "lastMouseMoveTime (started 1280 720 0) = 0" "innerWidth (started 1280 720 0) = 1280"
    "innerHeight (started 1280 720 0) = 720"
    by (simp_all add: started_eq)
  show ?thesis
    using onMouseMove_throttle [where s = "started 1280 720 0" and now = 1000 and cx = 960
        and cy = 180 and ?cx2.0 = 0 and ?cy2.0 = 0]
    by (simp add: h)
qed

section \<open>Animation updater\<close>

text \<open>
  C9. In every state the service can reach from its initial state, a frame update whose
  gate opens with all handles present smooths the rotation speed by
  \<open>speed += (target - speed) * 0.05\<close>, then adds exactly the new speed to the mesh's
  rotation about the vertical axis, which strictly increases; a frame update whose
  work is skipped leaves the angle unchanged, so the angle never decreases across
  frames.
\<close>

theorem rotation_accumulates:
  assumes "s = run (initial w h) steps"
  shows "(ready s \<and> elapsed now s > fpsInterval \<longrightarrow>
           currentRotationSpeed (animate now now2 s)
             = currentRotationSpeed s + (targetSpeed s - currentRotationSpeed s) * 0.05
           \<and> meshRotationY (animate now now2 s)
             = meshRotationY s + currentRotationSpeed (animate now now2 s)
           \<and> meshRotationY s < meshRotationY (animate now now2 s))
       \<and> meshRotationY s \<le> meshRotationY (animate now now2 s)"
proof -
  have r: "1 / 1000 \<le> currentRotationSpeed s" "currentRotationSpeed s \<le> 5 / 100"
    using speed_range_run [of w h steps] assms by simp_all
  have p: "0 < currentRotationSpeed (animate now now2 s)"
    using speed_range_animate [OF r, of now now2] by linarith
  have a: "ready s \<Longrightarrow> elapsed now s > fpsInterval \<Longrightarrow>
           currentRotationSpeed (animate now now2 s)
             = currentRotationSpeed s + (targetSpeed s - currentRotationSpeed s) * 0.05"
    by (rule animate_open_speed)
  have m: "meshRotationY (animate now now2 s)
     = (if elapsed now s > fpsInterval \<and> ready s
        then meshRotationY s + currentRotationSpeed (animate now now2 s)
        else meshRotationY s)"
    by (rule meshRotationY_animate)
  have b: "ready s \<Longrightarrow> elapsed now s > fpsInterval \<Longrightarrow>
           meshRotationY (animate now now2 s)
             = meshRotationY s + currentRotationSpeed (animate now now2 s)"
    using m by simp
  have c: "meshRotationY s \<le> meshRotationY (animate now now2 s)"
    using m p by (simp split: if_splits)
  have d: "ready s \<Longrightarrow> elapsed now s > fpsInterval \<Longrightarrow>
           meshRotationY s < meshRotationY (animate now now2 s)"
    using b p by simp
  show ?thesis using a b c d by blast
qed

theorem rotation_accumulates_witness:
  "ready (run (initial 1280 720)
            [CallInit \<lparr>cv_width = 300, cv_height = 150\<rparr> 1 (\<lambda>k. 0) 0 0 0, CallSetProgress 50])
   \<and> elapsed 24 (run (initial 1280 720)
            [CallInit \<lparr>cv_width = 300, cv_height = 150\<rparr> 1 (\<lambda>k. 0) 0 0 0, CallSetProgress 50])
       > fpsInterval
   \<and> currentRotationSpeed (animate 24 24 (run (initial 1280 720)
            [CallInit \<lparr>cv_width = 300, cv_height = 150\<rparr> 1 (\<lambda>k. 0) 0 0 0, CallSetProgress 50]))
       = 0.00345
   \<and> meshRotationY (animate 24 24 (run (initial 1280 720)
            [CallInit \<lparr>cv_width = 300, cv_height = 150\<rparr> 1 (\<lambda>k. 0) 0 0 0, CallSetProgress 50]))
       = 0.00345"
proof -
  define s where "s = run (initial 1280 720)
            [CallInit \<lparr>cv_width = 300, cv_height = 150\<rparr> 1 (\<lambda>k. 0) 0 0 0, CallSetProgress 50]"
  have e: "s = setProgress 50 (started 1280 720 0)"
    by (simp add: s_def run_def started_def)
  have h: "ready s" "then_ms s = 0" "currentRotationSpeed s = 1 / 1000"
    "targetSpeed s = 5 / 100" "meshRotationY s = 0"
    by (simp_all add: e started_eq setProgress_def ready_def targetSpeed_def isProcessing_def
        meshRotationY_def)
  have g: "elapsed 24 s > fpsInterval"
    by (simp add: elapsed_def h fpsInterval_eq double_eval)
  have "currentRotationSpeed (animate 24 24 s)
          = currentRotationSpeed s + (targetSpeed s - currentRotationSpeed s) * 0.05
        \<and> meshRotationY (animate 24 24 s)
          = meshRotationY s + currentRotationSpeed (animate 24 24 s)"
    using rotation_accumulates [OF s_def, of 24 24] h(1) g by blast
  then have "currentRotationSpeed (animate 24 24 s) = 0.00345
        \<and> meshRotationY (animate 24 24 s) = 0.00345"
    unfolding h by simp
  then show ?thesis using h(1) g unfolding s_def by simp
qed

text \<open>
  C10. Starting from the initial value 0.001, the smoothed rotation speed stays within
  \<open>[0.001, 0.05]\<close> after every step of every run: every interleaving of calls of
  \<open>init\<close>, \<open>setProgress\<close> and \<open>destroy\<close> with display refreshes, timers and input
  events.
\<close>

theorem rotation_speed_invariant:
  "0.001 \<le> currentRotationSpeed (run (initial w h) steps)
   \<and> currentRotationSpeed (run (initial w h) steps) \<le> 0.05"
  using speed_range_run [of w h steps] by simp

theorem rotation_speed_invariant_witness:
  "currentRotationSpeed (run (initial 1280 720)
     [CallInit \<lparr>cv_width = 300, cv_height = 150\<rparr> 1 (\<lambda>k. 0) 0 0 0, CallSetProgress 50,
      Refresh 24 24]) = 0.00345
   \<and> 0.001 \<le> currentRotationSpeed (run (initial 1280 720)
     [CallInit \<lparr>cv_width = 300, cv_height = 150\<rparr> 1 (\<lambda>k. 0) 0 0 0, CallSetProgress 50,
      Refresh 24 24])
   \<and> currentRotationSpeed (run (initial 1280 720)
     [CallInit \<lparr>cv_width = 300, cv_height = 150\<rparr> 1 (\<lambda>k. 0) 0 0 0, CallSetProgress 50,
      Refresh 24 24]) \<le> 0.05"
proof -
  have e: "run (initial 1280 720)
     [CallInit \<lparr>cv_width = 300, cv_height = 150\<rparr> 1 (\<lambda>k. 0) 0 0 0, CallSetProgress 50,
      Refresh 24 24] = refresh 24 24 (setProgress 50 (started 1280 720 0))"
    by (simp add: run_def started_def)
  have v: "currentRotationSpeed (refresh 24 24 (setProgress 50 (started 1280 720 0))) = 0.00345"
    by (simp add: started_eq setProgress_def refresh_def animate_def requestAnimationFrame_def
        renderLogic_def targetSpeed_def isProcessing_def elapsed_def fpsInterval_eq double_eval)
  show ?thesis
    using rotation_speed_invariant [of 1280 720
        "[CallInit \<lparr>cv_width = 300, cv_height = 150\<rparr> 1 (\<lambda>k. 0) 0 0 0, CallSetProgress 50,
          Refresh 24 24]"] v
    unfolding e by simp
qed

end
